theory Spec2Isabelle
  imports Main
begin

section \<open>JavaScript strings and the library functions the packer calls\<close>

text \<open>
  A JavaScript string is modelled as a \<^typ>\<open>string\<close>: a list of code units, each below 256.
  The functions of this section are the methods of \<open>String.prototype\<close> and of Node's
  \<open>path\<close> module (POSIX flavour) that \<open>src/index.js\<close> calls.
\<close>

abbreviation LF :: char where "LF \<equiv> CHR 0x0A"
abbreviation CR :: char where "CR \<equiv> CHR 0x0D"
abbreviation TAB :: char where "TAB \<equiv> CHR 0x09"

text \<open>\<open>s.startsWith(p)\<close>.\<close>

definition startsWith :: "string \<Rightarrow> string \<Rightarrow> bool" where
  "startsWith s p = (take (length p) s = p)"

text \<open>White space as \<open>trim()\<close> and the regular expression class \<open>\s\<close> see it, below 256.\<close>

definition isWhiteSpace :: "char \<Rightarrow> bool" where
  "isWhiteSpace c = (c \<in> set [CHR 0x09, CHR 0x0A, CHR 0x0B, CHR 0x0C, CHR 0x0D, CHR 0x20, CHR 0xA0])"

text \<open>\<open>s.trim()\<close>.\<close>

definition trim :: "string \<Rightarrow> string" where
  "trim s = rev (dropWhile isWhiteSpace (rev (dropWhile isWhiteSpace s)))"

text \<open>\<open>s.replace(/\\/g, '/')\<close>: every backslash becomes a slash.\<close>

definition replaceBackslashes :: "string \<Rightarrow> string" where
  "replaceBackslashes s = map (\<lambda>c. if c = CHR 0x5C then CHR ''/'' else c) s"

text \<open>\<open>s.toLowerCase()\<close> on code units below 256.\<close>

definition lowerChar :: "char \<Rightarrow> char" where
  "lowerChar c =
     (let n = (of_char c :: nat)
      in if (65 \<le> n \<and> n \<le> 90) \<or> (192 \<le> n \<and> n \<le> 222 \<and> n \<noteq> 215)
         then char_of (n + 32) else c)"

definition toLowerCase :: "string \<Rightarrow> string" where
  "toLowerCase s = map lowerChar s"

text \<open>\<open>s.split(sep)\<close> for a one-character separator: the empty string gives one empty piece.\<close>

fun splitOn :: "char \<Rightarrow> string \<Rightarrow> string list" where
  "splitOn sep [] = [[]]"
| "splitOn sep (c # cs) =
     (if c = sep then [] # splitOn sep cs
      else (case splitOn sep cs of [] \<Rightarrow> [[c]] | t # ts \<Rightarrow> (c # t) # ts))"

text \<open>\<open>s.split(/\s+/)\<close>: pieces between maximal runs of white space, empty end pieces kept.\<close>

fun splitWhiteSpace :: "string \<Rightarrow> string list" where
  "splitWhiteSpace [] = [[]]"
| "splitWhiteSpace (c # cs) =
     (if isWhiteSpace c
      then (case cs of
              [] \<Rightarrow> [] # splitWhiteSpace cs
            | d # _ \<Rightarrow> if isWhiteSpace d then splitWhiteSpace cs else [] # splitWhiteSpace cs)
      else (case splitWhiteSpace cs of [] \<Rightarrow> [[c]] | t # ts \<Rightarrow> (c # t) # ts))"

text \<open>\<open>pieces.join(sep)\<close>.\<close>

fun joinWith :: "string \<Rightarrow> string list \<Rightarrow> string" where
  "joinWith sep [] = []"
| "joinWith sep [p] = p"
| "joinWith sep (p # q # ps) = p @ sep @ joinWith sep (q # ps)"

text \<open>\<open>s.replace(/\r\n/g, '\n')\<close>, guarded in the source by \<open>s.indexOf('\r\n') !== -1\<close>.\<close>

fun hasCRLF :: "string \<Rightarrow> bool" where
  "hasCRLF (c # d # cs) = ((c = CR \<and> d = LF) \<or> hasCRLF (d # cs))"
| "hasCRLF _ = False"

fun replaceCRLF :: "string \<Rightarrow> string" where
  "replaceCRLF (c # d # cs) =
     (if c = CR \<and> d = LF then LF # replaceCRLF cs else c # replaceCRLF (d # cs))"
| "replaceCRLF cs = cs"

text \<open>
  \<open>path.normalize\<close> and \<open>path.join\<close> of Node on POSIX. A path is cut at its slashes;
  empty and \<open>.\<close> segments disappear, a \<open>..\<close> segment removes the segment before it
  (or stays, in a relative path that has nothing left to remove).
\<close>

fun normalizeSegment :: "bool \<Rightarrow> string list \<Rightarrow> string \<Rightarrow> string list" where
  "normalizeSegment allowAboveRoot res seg =
     (if seg = [] \<or> seg = ''.'' then res
      else if seg = ''..'' then
        (case res of
           [] \<Rightarrow> if allowAboveRoot then [''..''] else []
         | lastSeg # below \<Rightarrow>
             if lastSeg = ''..'' then (if allowAboveRoot then ''..'' # res else res) else below)
      else seg # res)"

definition normalizeString :: "string \<Rightarrow> bool \<Rightarrow> string" where
  "normalizeString p allowAboveRoot =
     joinWith ''/'' (rev (foldl (normalizeSegment allowAboveRoot) [] (splitOn (CHR ''/'') p)))"

definition normalize :: "string \<Rightarrow> string" where
  "normalize p =
     (if p = [] then ''.''
      else
        (let isAbsolute = (hd p = CHR ''/'');
             trailingSeparator = (last p = CHR ''/'');
             q = normalizeString p (\<not> isAbsolute)
         in if q = [] then (if isAbsolute then ''/'' else if trailingSeparator then ''./'' else ''.'')
            else (let q' = (if trailingSeparator then q @ ''/'' else q)
                  in if isAbsolute then CHR ''/'' # q' else q')))"

definition join :: "string list \<Rightarrow> string" where
  "join args =
     (let joined = filter (\<lambda>a. a \<noteq> []) args
      in if joined = [] then ''.'' else normalize (joinWith ''/'' joined))"

section \<open>The file system and the state of one pack\<close>

text \<open>
  The packer reads the file system and never writes it. \<open>ldrawPath\<close> is the library root
  (\<open>process.env.HOME + '/ldraw/'\<close>), \<open>existsSync\<close> is \<open>fs.existsSync\<close>, and
  \<open>readFileSync p\<close> is the text \<open>fs.readFileSync(p, 'utf8')\<close> returns, \<open>None\<close> when it throws.
\<close>

record env =
  ldrawPath :: string
  existsSync :: "string \<Rightarrow> bool"
  readFileSync :: "string \<Rightarrow> string option"

definition materialsFileName :: string where
  "materialsFileName = ''LDConfig.ldr''"

text \<open>
  Two moments of a pack that the theorems speak about: \<open>Walk name\<close>, a call of
  \<open>parseObject\<close> with \<open>fileName = name\<close> has begun (line 169), which is the start of one
  search for that name; and \<open>Resolved name path\<close>, line 293 has stored the path that the
  call returned under the name in \<open>pathMap\<close>.
\<close>

datatype event = Walk string | Resolved string string

text \<open>
  The four accumulators \<open>packLDrawModel\<close> hands to \<open>parseObject\<close>, which mutates them in
  place. \<open>pathMap\<close> is a plain object used as a dictionary, kept here as an association
  list. \<open>readLog\<close> and \<open>trace\<close> are not in the source: \<open>readLog\<close> records the path of
  every \<open>fs.readFileSync\<close> call in the order the calls are made, and \<open>trace\<close> records the
  events above in the order they happen, so that theorems can speak about the searches of
  a whole pack.
\<close>

record walk =
  objectsPaths :: "string list"
  objectsContents :: "string list"
  pathMap :: "(string \<times> string) list"
  listOfNotFound :: "string list"
  readLog :: "string list"
  trace :: "event list"

text \<open>
  \<open>pathMap\<close> is created as \<open>{}\<close>, so a property read also finds what every plain object
  inherits from \<open>Object.prototype\<close>; all of these are objects or functions.
\<close>

definition objectPrototypeKeys :: "string list" where
  "objectPrototypeKeys =
     [''constructor'', ''__defineGetter__'', ''__defineSetter__'', ''hasOwnProperty'',
      ''__lookupGetter__'', ''__lookupSetter__'', ''isPrototypeOf'', ''propertyIsEnumerable'',
      ''toString'', ''valueOf'', ''__proto__'', ''toLocaleString'']"

text \<open>
  The test the source writes as \<open>pathMap[name]\<close> in a condition: the property read is
  truthy. An own entry is truthy when its string is not empty.
\<close>

definition present :: "(string \<times> string) list \<Rightarrow> string \<Rightarrow> bool" where
  "present pm name =
     (name \<in> set objectPrototypeKeys \<or>
      (case map_of pm name of None \<Rightarrow> False | Some v \<Rightarrow> v \<noteq> []))"

text \<open>\<open>pathMap[name] = value\<close>.\<close>

fun assign :: "(string \<times> string) list \<Rightarrow> string \<Rightarrow> string \<Rightarrow> (string \<times> string) list" where
  "assign [] name v = [(name, v)]"
| "assign ((k, w) # pm) name v = (if k = name then (k, v) # pm else (k, w) # assign pm name v)"

text \<open>A string or \<open>null\<close> in a condition: \<open>!objectContent\<close>.\<close>

definition falsy :: "string option \<Rightarrow> bool" where
  "falsy c = (case c of None \<Rightarrow> True | Some s \<Rightarrow> s = [])"

text \<open>One \<open>fs.readFileSync\<close> call inside \<open>try\<close>: the result, and the call recorded.\<close>

definition tryRead :: "env \<Rightarrow> string \<Rightarrow> walk \<Rightarrow> string option \<times> walk" where
  "tryRead e p st = (readFileSync e p, st\<lparr>readLog := readLog st @ [p]\<rparr>)"

section \<open>The library search of \<open>parseObject\<close>\<close>

text \<open>
  One round of the loop \<open>for (attempt ...)\<close> of \<open>parseObject\<close> (lines 188 to 231) for the
  file name of that round: the content read if a candidate was readable, the value the
  variable \<open>prefix\<close> holds at the end of the round, and the state.
\<close>

definition searchAttempt :: "env \<Rightarrow> string \<Rightarrow> walk \<Rightarrow> string option \<times> string \<times> walk" where
  "searchAttempt e fileName st =
     (let prefix = (if startsWith fileName ''48/'' then ''p/''
                    else if startsWith fileName ''s/'' then ''parts/'' else '''');
          (r1, st1) = tryRead e (join [ldrawPath e, fileName]) st
      in case r1 of
           Some c \<Rightarrow> (Some c, prefix, st1)
         | None \<Rightarrow>
            (let (r2, st2) = tryRead e (join [ldrawPath e, ''parts/'', fileName]) st1
             in case r2 of
                  Some c \<Rightarrow> (Some c, ''parts/'', st2)
                | None \<Rightarrow>
                   (let (r3, st3) = tryRead e (join [ldrawPath e, ''p/'', fileName]) st2
                    in case r3 of
                         Some c \<Rightarrow> (Some c, ''p/'', st3)
                       | None \<Rightarrow>
                          (let (r4, st4) = tryRead e (join [ldrawPath e, ''models/'', fileName]) st3
                           in case r4 of
                                Some c \<Rightarrow> (Some c, ''models/'', st4)
                              | None \<Rightarrow> (None, ''models/'', st4)))))"

text \<open>
  The whole loop (lines 186 to 234): round 0 with the name as given, round 1 with the name
  in lower case, entered only when round 0 read nothing. The result is the final value of
  \<open>objectContent\<close> (unchanged from before the loop when nothing was read), of \<open>prefix\<close> and
  of \<open>fileName\<close>, and the state; the name is pushed on \<open>listOfNotFound\<close> when round 1 ends
  without a read.
\<close>

definition librarySearch ::
  "env \<Rightarrow> string \<Rightarrow> string option \<Rightarrow> walk \<Rightarrow> string option \<times> string \<times> string \<times> walk" where
  "librarySearch e originalFileName objectContent st =
     (case searchAttempt e originalFileName st of
        (Some c, prefix, st1) \<Rightarrow> (Some c, prefix, originalFileName, st1)
      | (None, _, st1) \<Rightarrow>
         (let fileName = toLowerCase originalFileName
          in case searchAttempt e fileName st1 of
               (Some c, prefix, st2) \<Rightarrow> (Some c, prefix, fileName, st2)
             | (None, prefix, st2) \<Rightarrow>
                 (objectContent, prefix, fileName,
                  st2\<lparr>listOfNotFound := listOfNotFound st2 @ [originalFileName]\<rparr>)))"

section \<open>\<open>parseObject\<close>\<close>

text \<open>
  Lines 171 to 234: the direct read of a root file, then the library search when nothing
  (or an empty text) has been read. The result is the final value of \<open>objectContent\<close>,
  of \<open>prefix\<close> and of \<open>fileName\<close>, and the state.
\<close>

definition readObject ::
  "env \<Rightarrow> string \<Rightarrow> bool \<Rightarrow> walk \<Rightarrow> string option \<times> string \<times> string \<times> walk" where
  "readObject e fileName isRoot st =
     (let (direct, st0) = (if isRoot then tryRead e fileName st else (None, st))
      in if falsy direct then librarySearch e fileName direct st0
         else (direct, [], fileName, st0))"

text \<open>Line 236: \<open>path.join(prefix, fileName).trim().replace(/\\/g, '/')\<close>.\<close>

definition canonicalPath :: "string \<Rightarrow> string \<Rightarrow> string" where
  "canonicalPath prefix fileName = replaceBackslashes (trim (join [prefix, fileName]))"

text \<open>
  \<open>parseObject\<close> calls itself for every reference it has not seen, and a file that places
  itself makes the recursion endless. A \<open>walker\<close> stands for the call
  \<open>parseObject(subobjectFileName, false, ...)\<close> on the shared accumulators: its result is
  \<open>None\<close> when the call does not return, and otherwise the returned value (\<open>None\<close> for
  \<open>null\<close>) with the accumulators after the call.
\<close>

type_synonym walker = "string \<Rightarrow> walk \<Rightarrow> (string option \<times> walk) option"

text \<open>
  Pieces of the loop body: the line without its leading spaces and tabs (lines 254 to
  259), the name a \<open>0 FILE\<close> line declares (line 268), and the name a placement line
  refers to, from its tokens (line 287).
\<close>

definition stripIndent :: "string \<Rightarrow> string" where
  "stripIndent raw = dropWhile (\<lambda>c. c = CHR '' '' \<or> c = TAB) raw"

definition declaredName :: "string \<Rightarrow> string" where
  "declaredName line = replaceBackslashes (trim (drop 7 line))"

definition referencedName :: "string list \<Rightarrow> string" where
  "referencedName tokens = replaceBackslashes (trim (joinWith '' '' (drop 14 tokens)))"

text \<open>
  The body of the loop over \<open>lines\<close> (lines 250 to 299) for the line \<open>raw\<close> at index \<open>i\<close>:
  the new value of \<open>processedObjectContent\<close> and the state.
\<close>

definition scanLine ::
  "walker \<Rightarrow> nat \<Rightarrow> string \<Rightarrow> string \<Rightarrow> walk \<Rightarrow> (string \<times> walk) option" where
  "scanLine recurse i raw processed st =
     (let line = stripIndent raw
      in if startsWith line ''0 FILE '' then
           (if i = 0 then Some (processed, st)
            else
              (let subobjectFileName = declaredName line
               in Some (processed @ line @ [LF],
                        if subobjectFileName \<noteq> [] \<and> \<not> present (pathMap st) subobjectFileName
                        then st\<lparr>pathMap := assign (pathMap st) subobjectFileName subobjectFileName\<rparr>
                        else st)))
         else if startsWith line ''1 '' then
           (let tokens = splitWhiteSpace (trim line)
            in if 15 \<le> length tokens then
                 (let subobjectFileName = referencedName tokens
                  in if subobjectFileName \<noteq> [] \<and> \<not> present (pathMap st) subobjectFileName then
                       (case recurse subobjectFileName st of
                          None \<Rightarrow> None
                        | Some (None, st1) \<Rightarrow> Some (processed @ line @ [LF], st1)
                        | Some (Some subobjectPath, st1) \<Rightarrow>
                            Some (processed @ line @ [LF],
                                  if subobjectPath \<noteq> []
                                  then st1\<lparr>pathMap :=
                                             assign (pathMap st1) subobjectFileName subobjectPath,
                                           trace := trace st1
                                             @ [Resolved subobjectFileName subobjectPath]\<rparr>
                                  else st1))
                     else Some (processed @ line @ [LF], st))
               else Some (processed @ line @ [LF], st))
         else Some (processed @ line @ [LF], st))"

text \<open>The loop itself, from index \<open>i\<close> on.\<close>

fun scanLines ::
  "walker \<Rightarrow> nat \<Rightarrow> string list \<Rightarrow> string \<Rightarrow> walk \<Rightarrow> (string \<times> walk) option" where
  "scanLines recurse i [] processed st = Some (processed, st)"
| "scanLines recurse i (raw # rest) processed st =
     (case scanLine recurse i raw processed st of
        None \<Rightarrow> None
      | Some (processed', st') \<Rightarrow> scanLines recurse (Suc i) rest processed' st')"

text \<open>
  \<open>parseObject\<close> as a whole. Its first argument bounds the depth of the nested calls;
  \<open>None\<close> means the bound was reached. The call is entered in \<open>trace\<close> first.
\<close>

primrec parseObject ::
  "nat \<Rightarrow> env \<Rightarrow> string \<Rightarrow> bool \<Rightarrow> walk \<Rightarrow> (string option \<times> walk) option" where
  "parseObject 0 e fileName isRoot st = None"
| "parseObject (Suc depth) e fileName isRoot st =
     (case readObject e fileName isRoot (st\<lparr>trace := trace st @ [Walk fileName]\<rparr>) of
        (objectContent, prefix, fileName', st1) \<Rightarrow>
          (let objectPath = canonicalPath prefix fileName'
           in if falsy objectContent then Some (None, st1)
              else
                (let content = (case objectContent of None \<Rightarrow> [] | Some c \<Rightarrow> c);
                     content' = (if hasCRLF content then replaceCRLF content else content);
                     header = (if isRoot then [] else ''0 FILE '' @ objectPath @ [LF])
                 in case scanLines (\<lambda>name s. parseObject depth e name False s) 0
                           (splitOn LF content') header st1 of
                      None \<Rightarrow> None
                    | Some (processedObjectContent, st2) \<Rightarrow>
                        Some (Some objectPath,
                              st2\<lparr>objectsPaths := objectsPaths st2 @ [objectPath],
                                  objectsContents :=
                                    objectsContents st2 @ [processedObjectContent]\<rparr>))))"

section \<open>\<open>packLDrawModel\<close>\<close>

text \<open>
  What \<open>packLDrawModel\<close> throws: an \<open>Error\<close> with its message, or whatever
  \<open>fs.readFileSync\<close> throws for the path it could not read.
\<close>

datatype failure = Error string | ReadFailure string

text \<open>
  The outcome of a pack: the exception or the packed content; the names written to the
  console by line 150, in order; and every \<open>fs.readFileSync\<close> call made, in order.
\<close>

record pack_result =
  outcome :: "failure + string"
  notFoundLogged :: "string list"
  reads :: "string list"

definition emptyWalk :: walk where
  "emptyWalk = \<lparr>objectsPaths = [], objectsContents = [], pathMap = [],
                listOfNotFound = [], readLog = [], trace = []\<rparr>"

text \<open>\<open>objectsContents[i]\<close> inside a string concatenation: out of range it is \<open>undefined\<close>.\<close>

definition contentAt :: "string list \<Rightarrow> nat \<Rightarrow> string" where
  "contentAt cs i = (if i < length cs then cs ! i else ''undefined'')"

text \<open>Lines 159 to 163: the loop runs \<open>i\<close> from \<open>objectsPaths.length - 1\<close> down to 0.\<close>

definition assemble :: "string \<Rightarrow> walk \<Rightarrow> string" where
  "assemble materialsContent st =
     materialsContent @ [LF]
       @ concat (map (contentAt (objectsContents st)) (rev [0 ..< length (objectsPaths st)]))
       @ [LF]"

text \<open>Lines 146 to 152: the entries of \<open>listOfNotFound\<close> that fail the test of line 148.\<close>

definition stillNotFound :: "walk \<Rightarrow> string list" where
  "stillNotFound st = filter (\<lambda>name. \<not> present (pathMap st) name) (listOfNotFound st)"

text \<open>Line 126: \<open>path.join(ldrawPath, materialsFileName)\<close>.\<close>

definition materialsFilePath :: "env \<Rightarrow> string" where
  "materialsFilePath e = join [ldrawPath e, materialsFileName]"

text \<open>
  \<open>packLDrawModel\<close>. The depth bound is that of \<open>parseObject\<close>: the result is \<open>None\<close> when
  the walk does not return within it.
\<close>

definition packLDrawModel :: "nat \<Rightarrow> env \<Rightarrow> string \<Rightarrow> pack_result option" where
  "packLDrawModel depth e fileName =
     (if \<not> existsSync e (materialsFilePath e) then
           Some \<lparr>outcome = Inl (Error (''Materials file not found: '' @ materialsFilePath e)),
                 notFoundLogged = [], reads = []\<rparr>
         else
           (case tryRead e (materialsFilePath e) emptyWalk of
              (None, st0) \<Rightarrow>
                Some \<lparr>outcome = Inl (ReadFailure (materialsFilePath e)),
                      notFoundLogged = [], reads = readLog st0\<rparr>
            | (Some materialsContent, st0) \<Rightarrow>
               (case parseObject depth e fileName True st0 of
                  None \<Rightarrow> None
                | Some (_, st) \<Rightarrow>
                    (let someNotFound = (stillNotFound st \<noteq> [])
                     in if someNotFound then
                          Some \<lparr>outcome = Inl (Error ''Some files were not found during packing''),
                                notFoundLogged = stillNotFound st, reads = readLog st\<rparr>
                        else
                          Some \<lparr>outcome = Inr (assemble materialsContent st),
                                notFoundLogged = [], reads = readLog st\<rparr>))))"

section \<open>The search order as the specification words it\<close>

text \<open>
  The four candidate locations of a name, in the order of the specification: the search
  root joined with no prefix, with \<open>parts/\<close>, with \<open>p/\<close> and with \<open>models/\<close>.
\<close>

definition candidatePrefixes :: "string list" where
  "candidatePrefixes = [[], ''parts/'', ''p/'', ''models/'']"

definition candidates :: "env \<Rightarrow> string \<Rightarrow> string list" where
  "candidates e name = map (\<lambda>prefix. join [ldrawPath e, prefix, name]) candidatePrefixes"

text \<open>Reading a list of paths in order and stopping after the first readable one.\<close>

fun readsUntilSuccess :: "env \<Rightarrow> string list \<Rightarrow> string list" where
  "readsUntilSuccess e [] = []"
| "readsUntilSuccess e (p # ps) =
     p # (if readFileSync e p = None then readsUntilSuccess e ps else [])"

text \<open>
  A line that places a reference of the given name: the conditions of lines 282 and 286
  and the first condition of line 289, for the name of line 287.
\<close>

definition refersTo :: "string \<Rightarrow> string \<Rightarrow> bool" where
  "refersTo raw name =
     (startsWith (stripIndent raw) ''1 ''
      \<and> 15 \<le> length (splitWhiteSpace (trim (stripIndent raw)))
      \<and> referencedName (splitWhiteSpace (trim (stripIndent raw))) = name
      \<and> name \<noteq> [])"

text \<open>The accumulators as the walk of the root finds them: the materials file has been read.\<close>

definition rootWalk :: "env \<Rightarrow> walk" where
  "rootWalk e = emptyWalk\<lparr>readLog := [materialsFilePath e]\<rparr>"



section \<open>A small library for the examples\<close>

definition placement :: "string \<Rightarrow> string" where
  "placement name = ''1 16 0 0 0 1 0 0 0 1 0 0 0 1 '' @ name"

definition library :: "(string \<times> string) list \<Rightarrow> env" where
  "library files =
     \<lparr>ldrawPath = ''/home/ldraw/'',
      existsSync = (\<lambda>p. map_of files p \<noteq> None),
      readFileSync = map_of files\<rparr>"

definition exampleFiles :: "(string \<times> string) list" where
  "exampleFiles =
     [(''/home/ldraw/LDConfig.ldr'', ''0 !COLOUR Black CODE 0'' @ [LF]),
      (''/tmp/model.ldr'',
         ''0 FILE model.ldr'' @ [LF] @ placement ''brick.dat'' @ [LF]
           @ placement ''48/ring.dat'' @ [LF]
           @ '' 0 FILE step2.ldr'' @ [LF] @ placement ''brick.dat'' @ [LF]),
      (''/tmp/twice.ldr'',
         placement ''X.dat'' @ [LF] @ placement ''X.dat'' @ [LF] @ placement ''Y.dat''),
      (''/tmp/once.ldr'', placement ''Z.dat''),
      (''/tmp/one.ldr'', placement ''brick.dat''),
      (''/tmp/declared.ldr'',
         placement ''X.dat'' @ [LF] @ ''0 FILE X.dat'' @ [LF] @ placement ''X.dat''),
      (''/tmp/loop.ldr'', placement ''n.ldr''),
      (''/tmp/house.ldr'', placement ''brick.dat'' @ [LF] @ placement ''wall.ldr''),
      (''/home/ldraw/models/wall.ldr'', ''0 Wall'' @ [LF] @ placement ''brick.dat''),
      (''/home/ldraw/models/n.ldr'', ''0 N'' @ [LF] @ placement ''m.ldr''),
      (''/home/ldraw/models/m.ldr'',
         ''0 M'' @ [LF] @ ''0 FILE m.ldr'' @ [LF] @ placement ''n.ldr''),
      (''/home/ldraw/parts/brick.dat'', ''0 FILE inner.dat'' @ [LF] @ ''0 Brick 2 x 4''),
      (''/home/ldraw/48/ring.dat'', ''0 Ring''),
      (''/home/ldraw/models/void.ldr'', [])]"

section \<open>The library search\<close>

lemma join_skip_empty: "join [a, [], b] = join [a, b]"
  by (simp add: join_def)

lemma candidates_eq:
  "candidates e n = [join [ldrawPath e, n], join [ldrawPath e, ''parts/'', n],
                     join [ldrawPath e, ''p/'', n], join [ldrawPath e, ''models/'', n]]"
  by (simp add: candidates_def candidatePrefixes_def join_skip_empty)

lemma searchAttempt_state:
  "snd (snd (searchAttempt e n st)) =
     st\<lparr>readLog := readLog st @ readsUntilSuccess e (candidates e n)\<rparr>"
  by (simp add: searchAttempt_def tryRead_def candidates_eq Let_def split: option.splits)

lemma searchAttempt_None:
  "fst (searchAttempt e n st) = None \<longleftrightarrow> (\<forall>p \<in> set (candidates e n). readFileSync e p = None)"
  by (auto simp add: searchAttempt_def tryRead_def candidates_eq Let_def split: option.splits)

lemma readsUntilSuccess_all_fail:
  "\<forall>p \<in> set ps. readFileSync e p = None \<Longrightarrow> readsUntilSuccess e ps = ps"
  by (induction ps) auto

lemma readsUntilSuccess_append:
  "readsUntilSuccess e (ps @ qs) =
     (if \<forall>p \<in> set ps. readFileSync e p = None then ps @ readsUntilSuccess e qs
      else readsUntilSuccess e ps)"
  by (induction ps) auto

lemma librarySearch_state:
  "snd (snd (snd (librarySearch e n c0 st))) =
     (let st' = st\<lparr>readLog := readLog st
                    @ readsUntilSuccess e (candidates e n @ candidates e (toLowerCase n))\<rparr>
      in if \<forall>p \<in> set (candidates e n @ candidates e (toLowerCase n)). readFileSync e p = None
         then st'\<lparr>listOfNotFound := listOfNotFound st @ [n]\<rparr> else st')"
proof -
  obtain r1 p1 s1 where a1: "searchAttempt e n st = (r1, p1, s1)"
    by (cases "searchAttempt e n st") auto
  obtain r2 p2 s2 where a2: "searchAttempt e (toLowerCase n) s1 = (r2, p2, s2)"
    by (cases "searchAttempt e (toLowerCase n) s1") auto
  from a1 searchAttempt_state[of e n st]
  have s1: "s1 = st\<lparr>readLog := readLog st @ readsUntilSuccess e (candidates e n)\<rparr>"
    by simp
  from a2 searchAttempt_state[of e "toLowerCase n" s1]
  have s2: "s2 = s1\<lparr>readLog := readLog s1 @ readsUntilSuccess e (candidates e (toLowerCase n))\<rparr>"
    by simp
  from a1 searchAttempt_None[of e n st]
  have n1: "r1 = None \<longleftrightarrow> (\<forall>p \<in> set (candidates e n). readFileSync e p = None)"
    by simp
  from a2 searchAttempt_None[of e "toLowerCase n" s1]
  have n2: "r2 = None \<longleftrightarrow> (\<forall>p \<in> set (candidates e (toLowerCase n)). readFileSync e p = None)"
    by simp
  show ?thesis
  proof (cases r1)
    case (Some c)
    with n1 have "\<not> (\<forall>p \<in> set (candidates e n). readFileSync e p = None)" by simp
    with Some a1 s1 show ?thesis
      by (auto simp add: librarySearch_def readsUntilSuccess_append Let_def)
  next
    case None
    with n1 have all1: "\<forall>p \<in> set (candidates e n). readFileSync e p = None" by simp
    show ?thesis
    proof (cases r2)
      case (Some c)
      with n2 have "\<not> (\<forall>p \<in> set (candidates e (toLowerCase n)). readFileSync e p = None)"
        by simp
      with Some None a1 a2 s1 s2 all1 show ?thesis
        by (auto simp add: librarySearch_def readsUntilSuccess_append
            readsUntilSuccess_all_fail Let_def)
    next
      case r2None: None
      with n2 have all2: "\<forall>p \<in> set (candidates e (toLowerCase n)). readFileSync e p = None"
        by simp
      with None r2None a1 a2 s1 s2 all1 show ?thesis
        by (auto simp add: librarySearch_def readsUntilSuccess_append
            readsUntilSuccess_all_fail Let_def)
    qed
  qed
qed

text \<open>
  \<^bold>\<open>C2.\<close> For a reference that is not the root, the reads the resolver makes are, in
  order, the four candidate locations of the name as written (root, \<open>parts/\<close>, \<open>p/\<close>,
  \<open>models/\<close>), each one a call of \<open>fs.readFileSync\<close>, up to and including the first
  readable one; the four candidates of the lower-cased name follow, in the same order and
  again up to the first readable one, exactly when each of the first four was unreadable.
\<close>

theorem resolver_search_order:
  "readLog (snd (snd (snd (readObject e name False st)))) =
     readLog st @
       (if \<forall>p \<in> set (candidates e name). readFileSync e p = None
        then candidates e name @ readsUntilSuccess e (candidates e (toLowerCase name))
        else readsUntilSuccess e (candidates e name))"
  by (simp add: readObject_def falsy_def librarySearch_state Let_def readsUntilSuccess_append)

theorem resolver_search_order_witness:
  "readLog (snd (snd (snd (readObject (library exampleFiles) ''Brick.dat'' False emptyWalk)))) =
     [''/home/ldraw/Brick.dat'', ''/home/ldraw/parts/Brick.dat'', ''/home/ldraw/p/Brick.dat'',
      ''/home/ldraw/models/Brick.dat'', ''/home/ldraw/brick.dat'', ''/home/ldraw/parts/brick.dat'']"
  unfolding resolver_search_order by code_simp

lemma searchAttempt_Some:
  assumes "searchAttempt e n st = (Some c, prefix, st')"
  shows "\<exists>k<4. (\<forall>j<k. readFileSync e (candidates e n ! j) = None)
            \<and> readFileSync e (candidates e n ! k) = Some c
            \<and> prefix = (if k = 0 \<and> startsWith n ''48/'' then ''p/''
                        else if k = 0 \<and> startsWith n ''s/'' then ''parts/''
                        else candidatePrefixes ! k)"
proof (cases "readFileSync e (join [ldrawPath e, n])")
  case (Some c1)
  with assms have "c1 = c"
    and "prefix = (if startsWith n ''48/'' then ''p/''
                   else if startsWith n ''s/'' then ''parts/'' else [])"
    by (simp_all add: searchAttempt_def tryRead_def Let_def)
  with Some have "(\<forall>j<0::nat. readFileSync e (candidates e n ! j) = None)
            \<and> readFileSync e (candidates e n ! 0) = Some c
            \<and> prefix = (if (0::nat) = 0 \<and> startsWith n ''48/'' then ''p/''
                        else if (0::nat) = 0 \<and> startsWith n ''s/'' then ''parts/''
                        else candidatePrefixes ! 0)"
    by (simp add: candidates_eq candidatePrefixes_def)
  then show ?thesis by (intro exI[of _ "0::nat"]) simp
next
  case n1: None
  show ?thesis
  proof (cases "readFileSync e (join [ldrawPath e, ''parts/'', n])")
    case (Some c2)
    with n1 assms have "c2 = c" and "prefix = ''parts/''"
      by (simp_all add: searchAttempt_def tryRead_def Let_def)
    with Some n1 have "(\<forall>j<1::nat. readFileSync e (candidates e n ! j) = None)
            \<and> readFileSync e (candidates e n ! 1) = Some c
            \<and> prefix = candidatePrefixes ! 1"
      by (simp add: candidates_eq candidatePrefixes_def)
    then show ?thesis by (intro exI[of _ "1::nat"]) simp
  next
    case n2: None
    show ?thesis
    proof (cases "readFileSync e (join [ldrawPath e, ''p/'', n])")
      case (Some c3)
      with n1 n2 assms have "c3 = c" and "prefix = ''p/''"
        by (simp_all add: searchAttempt_def tryRead_def Let_def)
      with Some n1 n2 have "(\<forall>j<2::nat. readFileSync e (candidates e n ! j) = None)
            \<and> readFileSync e (candidates e n ! 2) = Some c
            \<and> prefix = candidatePrefixes ! 2"
        by (simp add: candidates_eq candidatePrefixes_def less_Suc_eq numeral_2_eq_2)
      then show ?thesis by (intro exI[of _ "2::nat"]) simp
    next
      case n3: None
      from n1 n2 n3 assms
      have r4: "readFileSync e (join [ldrawPath e, ''models/'', n]) = Some c"
        and "prefix = ''models/''"
        by (simp_all add: searchAttempt_def tryRead_def Let_def split: option.splits)
      with n1 n2 n3 have "(\<forall>j<3::nat. readFileSync e (candidates e n ! j) = None)
            \<and> readFileSync e (candidates e n ! 3) = Some c
            \<and> prefix = candidatePrefixes ! 3"
        by (simp add: candidates_eq candidatePrefixes_def less_Suc_eq numeral_3_eq_3)
      then show ?thesis by (intro exI[of _ "3::nat"]) simp
    qed
  qed
qed

text \<open>
  \<^bold>\<open>C3\<close>, as the claim states it, fails. The name \<open>48/ring.dat\<close> is read at the first
  candidate, \<open>/home/ldraw/48/ring.dat\<close>, whose prefix is empty; the prefix the search
  returns is \<open>p/\<close>, and the canonical path \<open>parseObject\<close> returns is \<open>p/48/ring.dat\<close>.
\<close>

theorem library_search_prefix_counterexample:
  "librarySearch (library exampleFiles) ''48/ring.dat'' None emptyWalk =
     (Some ''0 Ring'', ''p/'', ''48/ring.dat'',
      emptyWalk\<lparr>readLog := [''/home/ldraw/48/ring.dat'']\<rparr>)
   \<and> candidates (library exampleFiles) ''48/ring.dat'' ! 0 = ''/home/ldraw/48/ring.dat''
   \<and> candidatePrefixes ! 0 = []
   \<and> parseObject (Suc 0) (library exampleFiles) ''48/ring.dat'' False emptyWalk
       = Some (Some ''p/48/ring.dat'',
               \<lparr>objectsPaths = [''p/48/ring.dat''],
                objectsContents = [''0 FILE p/48/ring.dat'' @ [LF] @ ''0 Ring'' @ [LF]],
                pathMap = [], listOfNotFound = [],
                readLog = [''/home/ldraw/48/ring.dat''],
                trace = [Walk ''48/ring.dat'']\<rparr>)"
  by code_simp

text \<open>
  \<^bold>\<open>C3\<close>, amended. Whenever the library search reads a non-empty content, it was read at
  the first readable candidate, number \<open>k\<close> of the four, of the name of that round (the
  name as written, or its lower case when the four candidates of the name as written were
  unreadable), and the prefix returned is the prefix of candidate \<open>k\<close>, with one exception:
  when the first candidate (empty prefix) is the readable one and the name of the round
  starts with \<open>48/\<close> or with \<open>s/\<close>, the prefix returned is \<open>p/\<close> or \<open>parts/\<close>.
\<close>

theorem library_search_prefix:
  assumes "librarySearch e name c0 st = (Some c, prefix, fileName, st')"
    and "falsy c0" and "c \<noteq> []"
  shows "\<exists>k<4. (\<forall>j<k. readFileSync e (candidates e fileName ! j) = None)
            \<and> readFileSync e (candidates e fileName ! k) = Some c
            \<and> prefix = (if k = 0 \<and> startsWith fileName ''48/'' then ''p/''
                        else if k = 0 \<and> startsWith fileName ''s/'' then ''parts/''
                        else candidatePrefixes ! k)
            \<and> (fileName = name \<or>
                 fileName = toLowerCase name
                   \<and> (\<forall>p \<in> set (candidates e name). readFileSync e p = None))"
proof -
  obtain r1 p1 s1 where a1: "searchAttempt e name st = (r1, p1, s1)"
    by (cases "searchAttempt e name st") auto
  show ?thesis
  proof (cases r1)
    case (Some c1)
    with a1 assms(1) have eqs: "c1 = c" "p1 = prefix" "fileName = name"
      by (simp_all add: librarySearch_def)
    from a1 Some eqs have "searchAttempt e fileName st = (Some c, prefix, s1)" by simp
    from searchAttempt_Some[OF this] eqs(3) show ?thesis by blast
  next
    case None
    with a1 searchAttempt_None[of e name st]
    have all1: "\<forall>p \<in> set (candidates e name). readFileSync e p = None" by simp
    obtain r2 p2 s2 where a2: "searchAttempt e (toLowerCase name) s1 = (r2, p2, s2)"
      by (cases "searchAttempt e (toLowerCase name) s1") auto
    show ?thesis
    proof (cases r2)
      case r2None: None
      with None a1 a2 assms have False
        by (simp add: librarySearch_def falsy_def Let_def split: option.splits)
      then show ?thesis ..
    next
      case (Some c2)
      with None a1 a2 assms(1) have eqs: "c2 = c" "p2 = prefix" "fileName = toLowerCase name"
        by (simp_all add: librarySearch_def Let_def)
      from a2 Some eqs have "searchAttempt e fileName s1 = (Some c, prefix, s2)" by simp
      from searchAttempt_Some[OF this] eqs(3) all1 show ?thesis by blast
    qed
  qed
qed

theorem library_search_prefix_witness:
  "\<exists>k<4. (\<forall>j<k. readFileSync (library exampleFiles)
                    (candidates (library exampleFiles) ''brick.dat'' ! j) = None)
      \<and> readFileSync (library exampleFiles) (candidates (library exampleFiles) ''brick.dat'' ! k)
          = Some (''0 FILE inner.dat'' @ [LF] @ ''0 Brick 2 x 4'')
      \<and> ''parts/'' = (if k = 0 \<and> startsWith ''brick.dat'' ''48/'' then ''p/''
                       else if k = 0 \<and> startsWith ''brick.dat'' ''s/'' then ''parts/''
                       else candidatePrefixes ! k)
      \<and> (''brick.dat'' = ''Brick.dat'' \<or>
           ''brick.dat'' = toLowerCase ''Brick.dat''
             \<and> (\<forall>p \<in> set (candidates (library exampleFiles) ''Brick.dat'').
                    readFileSync (library exampleFiles) p = None))"
proof -
  have found: "librarySearch (library exampleFiles) ''Brick.dat'' None emptyWalk =
      (Some (''0 FILE inner.dat'' @ [LF] @ ''0 Brick 2 x 4''), ''parts/'', ''brick.dat'',
       emptyWalk\<lparr>readLog :=
         [''/home/ldraw/Brick.dat'', ''/home/ldraw/parts/Brick.dat'', ''/home/ldraw/p/Brick.dat'',
          ''/home/ldraw/models/Brick.dat'', ''/home/ldraw/brick.dat'',
          ''/home/ldraw/parts/brick.dat'']\<rparr>)"
    by code_simp
  show ?thesis
    by (rule library_search_prefix[OF found]) (simp_all add: falsy_def)
qed

section \<open>A reference that is nowhere\<close>

lemma searchAttempt_fail:
  assumes "\<forall>p \<in> set (candidates e n). readFileSync e p = None"
  shows "searchAttempt e n st = (None, ''models/'', st\<lparr>readLog := readLog st @ candidates e n\<rparr>)"
  using assms by (simp add: searchAttempt_def tryRead_def candidates_eq Let_def)

lemma librarySearch_fail:
  assumes "\<forall>p \<in> set (candidates e n @ candidates e (toLowerCase n)). readFileSync e p = None"
  shows "librarySearch e n c0 st =
           (c0, ''models/'', toLowerCase n,
            st\<lparr>readLog := readLog st @ candidates e n @ candidates e (toLowerCase n),
               listOfNotFound := listOfNotFound st @ [n]\<rparr>)"
proof -
  from assms have a1: "\<forall>p \<in> set (candidates e n). readFileSync e p = None"
    and a2: "\<forall>p \<in> set (candidates e (toLowerCase n)). readFileSync e p = None" by auto
  show ?thesis
    by (simp add: librarySearch_def searchAttempt_fail[OF a1] searchAttempt_fail[OF a2] Let_def)
qed

lemma parseObject_unresolved:
  assumes "\<forall>p \<in> set (candidates e name @ candidates e (toLowerCase name)). readFileSync e p = None"
    and "isRoot \<longrightarrow> falsy (readFileSync e name)"
  shows "parseObject (Suc depth) e name isRoot st =
           Some (None,
                 st\<lparr>trace := trace st @ [Walk name],
                    readLog := readLog st @ (if isRoot then [name] else [])
                                  @ candidates e name @ candidates e (toLowerCase name),
                    listOfNotFound := listOfNotFound st @ [name]\<rparr>)"
  using assms(2)
  by (cases isRoot)
    (simp_all add: readObject_def tryRead_def librarySearch_fail[OF assms(1)] falsy_def)

text \<open>
  \<^bold>\<open>C9.\<close> When none of the eight candidates of a name (four as written, four in lower
  case) is readable, and for a root neither the direct read gives a non-empty text, the
  call returns \<open>null\<close>; \<open>objectsPaths\<close>, \<open>objectsContents\<close> and \<open>pathMap\<close> are as before,
  and \<open>listOfNotFound\<close> has grown by the name as written, once. The reads made are the
  direct read of a root and the eight candidates.
\<close>

theorem walker_unresolved:
  assumes "\<forall>p \<in> set (candidates e name @ candidates e (toLowerCase name)). readFileSync e p = None"
    and "isRoot \<longrightarrow> falsy (readFileSync e name)"
  shows "\<exists>st'. parseObject (Suc depth) e name isRoot st = Some (None, st')
           \<and> objectsPaths st' = objectsPaths st
           \<and> objectsContents st' = objectsContents st
           \<and> pathMap st' = pathMap st
           \<and> listOfNotFound st' = listOfNotFound st @ [name]
           \<and> readLog st' = readLog st @ (if isRoot then [name] else [])
                              @ candidates e name @ candidates e (toLowerCase name)"
  using parseObject_unresolved[OF assms, of depth st] by (simp del: parseObject.simps)

theorem walker_unresolved_witness:
  "\<exists>st'. parseObject (Suc 0) (library exampleFiles) ''X.dat'' False emptyWalk = Some (None, st')
     \<and> objectsPaths st' = objectsPaths emptyWalk
     \<and> objectsContents st' = objectsContents emptyWalk
     \<and> pathMap st' = pathMap emptyWalk
     \<and> listOfNotFound st' = listOfNotFound emptyWalk @ [''X.dat'']
     \<and> readLog st' = readLog emptyWalk @ (if False then [''X.dat''] else [])
                        @ candidates (library exampleFiles) ''X.dat''
                        @ candidates (library exampleFiles) (toLowerCase ''X.dat'')"
proof -
  have nowhere: "\<forall>p \<in> set (candidates (library exampleFiles) ''X.dat''
                       @ candidates (library exampleFiles) (toLowerCase ''X.dat'')).
                   readFileSync (library exampleFiles) p = None"
    by code_simp
  show ?thesis
    by (rule walker_unresolved[OF nowhere]) simp
qed

section \<open>The line scan\<close>

lemma startsWith_iff: "startsWith s p = (\<exists>r. s = p @ r)"
  unfolding startsWith_def by (metis append_take_drop_id append_eq_conv_conj)

lemma startsWith_placement_not_file: "startsWith s ''1 '' \<Longrightarrow> \<not> startsWith s ''0 FILE ''"
  by (auto simp: startsWith_iff)

lemma splitWhiteSpace_nonempty: "splitWhiteSpace s \<noteq> []"
proof (induction s)
  case Nil
  show ?case by simp
next
  case (Cons c cs)
  then show ?case
    by (cases cs; cases "splitWhiteSpace cs")
      (simp_all del: splitWhiteSpace.simps add: splitWhiteSpace.simps(2)[of c])
qed

lemma splitWhiteSpace_hd_ws: "isWhiteSpace c \<Longrightarrow> hd (splitWhiteSpace (c # cs)) = []"
proof (induction cs arbitrary: c)
  case Nil
  then show ?case by simp
next
  case (Cons d ds)
  from Cons.prems have "splitWhiteSpace (c # d # ds) =
      (if isWhiteSpace d then splitWhiteSpace (d # ds) else [] # splitWhiteSpace (d # ds))"
    by (subst splitWhiteSpace.simps(2)) (simp del: splitWhiteSpace.simps)
  with Cons.IH[of d] show ?case by (simp del: splitWhiteSpace.simps)
qed

lemma trim_keeps_first:
  "\<not> isWhiteSpace c \<Longrightarrow> trim (c # cs) = c # rev (dropWhile isWhiteSpace (rev cs))"
  by (simp add: trim_def dropWhile_append3)

lemma rev_dropWhile_rev_prefix: "\<exists>ys. cs = rev (dropWhile P (rev cs)) @ ys"
proof -
  define a b where "a = takeWhile P (rev cs)" and "b = dropWhile P (rev cs)"
  have "a @ b = rev cs" by (simp add: a_def b_def)
  then have "rev (a @ b) = cs" by simp
  then have "cs = rev b @ rev a" by simp
  then show ?thesis unfolding b_def ..
qed

text \<open>The first token of a placement line is its marker, so the fields are the other tokens.\<close>

lemma placement_first_token:
  assumes "startsWith line ''1 ''"
  shows "hd (splitWhiteSpace (trim line)) = ''1''"
proof -
  from assms obtain rest where line: "line = CHR ''1'' # CHR '' '' # rest"
    by (auto simp: startsWith_iff)
  define t where "t = rev (dropWhile isWhiteSpace (rev (CHR '' '' # rest)))"
  have tr: "trim line = CHR ''1'' # t"
    unfolding line t_def by (rule trim_keeps_first) (simp add: isWhiteSpace_def)
  from rev_dropWhile_rev_prefix[of "CHR '' '' # rest" isWhiteSpace]
  obtain ys where pre: "CHR '' '' # rest = t @ ys" unfolding t_def by blast
  show ?thesis
  proof (cases t)
    case Nil
    with tr show ?thesis by (simp add: isWhiteSpace_def)
  next
    case (Cons d t')
    with pre have d: "d = CHR '' ''" by simp
    have "hd (splitWhiteSpace (d # t')) = []"
      by (rule splitWhiteSpace_hd_ws) (simp add: d isWhiteSpace_def)
    moreover have "splitWhiteSpace (d # t') \<noteq> []" by (rule splitWhiteSpace_nonempty)
    ultimately obtain ts where "splitWhiteSpace (d # t') = [] # ts"
      by (cases "splitWhiteSpace (d # t')") auto
    then have "splitWhiteSpace (CHR ''1'' # d # t') = ''1'' # ts"
      by (subst splitWhiteSpace.simps(2)) (simp add: isWhiteSpace_def del: splitWhiteSpace.simps)
    with tr Cons show ?thesis by (simp del: splitWhiteSpace.simps)
  qed
qed

text \<open>
  \<^bold>\<open>C7.\<close> A line that, once its leading spaces and tabs are gone, starts with the marker
  \<open>1\<close> and a space, and has fewer than fourteen white-space separated fields after the
  marker (the marker is the first token), causes no resolution attempt and no error:
  whatever the walker would do, it is not called, the accumulators are as before, and the
  line followed by a line feed is added to the rewritten output.
\<close>

theorem short_placement_line:
  assumes "startsWith (stripIndent raw) ''1 ''"
    and "length (tl (splitWhiteSpace (trim (stripIndent raw)))) < 14"
  shows "hd (splitWhiteSpace (trim (stripIndent raw))) = ''1''
         \<and> scanLine recurse i raw processed st = Some (processed @ stripIndent raw @ [LF], st)"
proof -
  from assms(2) have short: "\<not> 15 \<le> length (splitWhiteSpace (trim (stripIndent raw)))"
    by simp
  from assms(1) have "\<not> startsWith (stripIndent raw) ''0 FILE ''"
    by (rule startsWith_placement_not_file)
  with assms(1) short
  have "scanLine recurse i raw processed st = Some (processed @ stripIndent raw @ [LF], st)"
    by (simp add: scanLine_def Let_def)
  with placement_first_token[OF assms(1)] show ?thesis by simp
qed

theorem short_placement_line_witness:
  "hd (splitWhiteSpace (trim (stripIndent ''  1 16 0 0 0 brick.dat''))) = ''1''
   \<and> scanLine (\<lambda>name s. None) 3 ''  1 16 0 0 0 brick.dat'' ''0 head'' emptyWalk
       = Some (''0 head'' @ stripIndent ''  1 16 0 0 0 brick.dat'' @ [LF], emptyWalk)"
proof -
  have a: "startsWith (stripIndent ''  1 16 0 0 0 brick.dat'') ''1 ''" by code_simp
  have b: "length (tl (splitWhiteSpace (trim (stripIndent ''  1 16 0 0 0 brick.dat'')))) < 14"
    by code_simp
  show ?thesis by (rule short_placement_line[OF a b])
qed

lemma map_of_assign: "map_of (assign pm k v) = (map_of pm)(k \<mapsto> v)"
  by (induction pm k v rule: assign.induct) auto

lemma present_assign: "v \<noteq> [] \<Longrightarrow> present (assign pm k v) k"
  by (simp add: present_def map_of_assign)

text \<open>
  \<^bold>\<open>C6\<close>, as the claim states it, fails. \<open>brick.dat\<close> is not a root; its content starts
  with the line \<open>0 FILE inner.dat\<close>. The rewritten content of \<open>brick.dat\<close> is its header
  and its second line: the first line is dropped, and \<open>inner.dat\<close> is not registered in
  \<open>pathMap\<close>. Nor is anything registered by a \<open>0 FILE\<close> line further down that declares
  an empty name.
\<close>

theorem self_declaration_line_counterexample:
  "readFileSync (library exampleFiles) ''/home/ldraw/parts/brick.dat''
     = Some (''0 FILE inner.dat'' @ [LF] @ ''0 Brick 2 x 4'')
   \<and> parseObject (Suc 0) (library exampleFiles) ''brick.dat'' False emptyWalk
     = Some (Some ''parts/brick.dat'',
             \<lparr>objectsPaths = [''parts/brick.dat''],
              objectsContents = [''0 FILE parts/brick.dat'' @ [LF] @ ''0 Brick 2 x 4'' @ [LF]],
              pathMap = [], listOfNotFound = [],
              readLog = [''/home/ldraw/brick.dat'', ''/home/ldraw/parts/brick.dat''],
              trace = [Walk ''brick.dat'']\<rparr>)
   \<and> scanLine (\<lambda>name s. None) 1 ''0 FILE   '' [] emptyWalk
     = Some (''0 FILE   '' @ [LF], emptyWalk)"
  by code_simp

text \<open>
  \<^bold>\<open>C6\<close>, amended. A \<open>0 FILE\<close> line is dropped from the rewritten output exactly when it
  is the line of index 0 of the content being scanned, of a root or of any other file. At
  any other index the line, without its leading spaces and tabs, is added to the rewritten
  output with a line feed; the name it declares, when that name is not empty and the test
  \<open>pathMap[name]\<close> fails, is registered in \<open>pathMap\<close> mapped to itself, and nothing else
  changes; otherwise the accumulators are as before.
\<close>

theorem self_declaration_line:
  assumes "line = stripIndent raw" and "startsWith line ''0 FILE ''"
    and "name = declaredName line"
  shows "(if i = 0 then scanLine recurse i raw processed st = Some (processed, st)
          else \<exists>st'. scanLine recurse i raw processed st = Some (processed @ line @ [LF], st')
                 \<and> (if name \<noteq> [] \<and> \<not> present (pathMap st) name
                     then st' = st\<lparr>pathMap := pathMap st'\<rparr>
                          \<and> map_of (pathMap st') = (map_of (pathMap st))(name \<mapsto> name)
                          \<and> present (pathMap st') name
                     else st' = st))"
  using assms by (simp add: scanLine_def Let_def map_of_assign present_assign)

theorem self_declaration_line_witness:
  "\<exists>st'. scanLine (\<lambda>name s. None) 3 '' 0 FILE step2.ldr'' ''0 head'' emptyWalk
            = Some (''0 head'' @ ''0 FILE step2.ldr'' @ [LF], st')
     \<and> st' = emptyWalk\<lparr>pathMap := pathMap st'\<rparr>
     \<and> map_of (pathMap st') = (map_of (pathMap emptyWalk))(''step2.ldr'' \<mapsto> ''step2.ldr'')
     \<and> present (pathMap st') ''step2.ldr''"
proof -
  have a: "''0 FILE step2.ldr'' = stripIndent '' 0 FILE step2.ldr''" by code_simp
  have b: "startsWith ''0 FILE step2.ldr'' ''0 FILE ''" by code_simp
  have c: "''step2.ldr'' = declaredName ''0 FILE step2.ldr''" by code_simp
  have d: "\<not> present (pathMap emptyWalk) ''step2.ldr''" by code_simp
  from self_declaration_line[OF a b c, of 3 "\<lambda>name s. None" "''0 head''" emptyWalk] d
  show ?thesis by simp
qed

section \<open>What a walk preserves\<close>

text \<open>
  A property of the accumulators holds after the loop body when it holds before, the call
  for a name that is not in \<open>pathMap\<close> preserves it, and so do the two stores into
  \<open>pathMap\<close>: line 274 for a declared name, line 293 for the path a call returned.
\<close>

lemma scanLine_invariant:
  assumes rec: "\<And>name s r s'. recurse name s = Some (r, s') \<Longrightarrow> \<not> present (pathMap s) name
                \<Longrightarrow> P s \<Longrightarrow> P s'"
    and decl: "\<And>s k. P s \<Longrightarrow> \<not> present (pathMap s) k \<Longrightarrow> k \<noteq> []
                \<Longrightarrow> P (s\<lparr>pathMap := assign (pathMap s) k k\<rparr>)"
    and res: "\<And>s0 s k v. P s0 \<Longrightarrow> \<not> present (pathMap s0) k
                \<Longrightarrow> recurse k s0 = Some (Some v, s) \<Longrightarrow> P s \<Longrightarrow> v \<noteq> []
                \<Longrightarrow> P (s\<lparr>pathMap := assign (pathMap s) k v,
                         trace := trace s @ [Resolved k v]\<rparr>)"
    and step: "scanLine recurse i raw processed st = Some (processed', st')"
    and start: "P st"
  shows "P st'"
proof -
  define line where "line = stripIndent raw"
  define name where "name = referencedName (splitWhiteSpace (trim line))"
  show ?thesis
  proof (cases "\<not> startsWith line ''0 FILE '' \<and> startsWith line ''1 ''
                 \<and> 15 \<le> length (splitWhiteSpace (trim line))
                 \<and> name \<noteq> [] \<and> \<not> present (pathMap st) name")
    case True
    with step obtain r s1 where call: "recurse name st = Some (r, s1)"
      and st': "st' = (case r of None \<Rightarrow> s1
                       | Some p \<Rightarrow> if p \<noteq> []
                           then s1\<lparr>pathMap := assign (pathMap s1) name p,
                                   trace := trace s1 @ [Resolved name p]\<rparr>
                           else s1)"
      by (auto simp add: scanLine_def Let_def line_def name_def split: option.splits)
    from True have absent: "\<not> present (pathMap st) name" by simp
    from rec[OF call absent start] have s1: "P s1" .
    show ?thesis
    proof (cases r)
      case None
      with st' s1 show ?thesis by simp
    next
      case (Some p)
      show ?thesis
      proof (cases "p = []")
        case True
        with st' s1 Some show ?thesis by simp
      next
        case False
        from call Some have "recurse name st = Some (Some p, s1)" by simp
        from res[OF start absent this s1 False] st' Some False show ?thesis by simp
      qed
    qed
  next
    case False
    show ?thesis
    proof (cases "startsWith line ''0 FILE '' \<and> i \<noteq> 0 \<and> declaredName line \<noteq> []
                   \<and> \<not> present (pathMap st) (declaredName line)")
      case True
      with step have "st' = st\<lparr>pathMap := assign (pathMap st) (declaredName line)
                                            (declaredName line)\<rparr>"
        by (simp add: scanLine_def Let_def line_def)
      with decl[OF start, of "declaredName line"] True show ?thesis by simp
    next
      case noDecl: False
      with False step have "st' = st"
        by (auto simp add: scanLine_def Let_def line_def name_def split: if_splits)
      with start show ?thesis by simp
    qed
  qed
qed

lemma scanLines_invariant:
  assumes rec: "\<And>name s r s'. recurse name s = Some (r, s') \<Longrightarrow> \<not> present (pathMap s) name
                \<Longrightarrow> P s \<Longrightarrow> P s'"
    and decl: "\<And>s k. P s \<Longrightarrow> \<not> present (pathMap s) k \<Longrightarrow> k \<noteq> []
                \<Longrightarrow> P (s\<lparr>pathMap := assign (pathMap s) k k\<rparr>)"
    and res: "\<And>s0 s k v. P s0 \<Longrightarrow> \<not> present (pathMap s0) k
                \<Longrightarrow> recurse k s0 = Some (Some v, s) \<Longrightarrow> P s \<Longrightarrow> v \<noteq> []
                \<Longrightarrow> P (s\<lparr>pathMap := assign (pathMap s) k v,
                         trace := trace s @ [Resolved k v]\<rparr>)"
  shows "scanLines recurse i ls processed st = Some (processed', st') \<Longrightarrow> P st \<Longrightarrow> P st'"
proof (induction ls arbitrary: i processed st)
  case Nil
  then show ?case by simp
next
  case (Cons raw rest)
  from Cons.prems(1) obtain out1 st1
    where one: "scanLine recurse i raw processed st = Some (out1, st1)"
      and more: "scanLines recurse (Suc i) rest out1 st1 = Some (processed', st')"
    by (auto split: option.splits)
  have "P st1"
  proof (rule scanLine_invariant[where recurse = recurse and P = P])
    show "\<And>name s r s'. recurse name s = Some (r, s') \<Longrightarrow> \<not> present (pathMap s) name
            \<Longrightarrow> P s \<Longrightarrow> P s'" by (rule rec)
    show "\<And>s k. P s \<Longrightarrow> \<not> present (pathMap s) k \<Longrightarrow> k \<noteq> []
            \<Longrightarrow> P (s\<lparr>pathMap := assign (pathMap s) k k\<rparr>)" by (rule decl)
    show "\<And>s0 s k v. P s0 \<Longrightarrow> \<not> present (pathMap s0) k
            \<Longrightarrow> recurse k s0 = Some (Some v, s) \<Longrightarrow> P s \<Longrightarrow> v \<noteq> []
            \<Longrightarrow> P (s\<lparr>pathMap := assign (pathMap s) k v,
                     trace := trace s @ [Resolved k v]\<rparr>)" by (rule res)
    show "scanLine recurse i raw processed st = Some (out1, st1)" by (rule one)
    show "P st" by (rule Cons.prems(2))
  qed
  with Cons.IH[OF more] show ?case .
qed

lemma readObject_frame:
  "\<exists>l xs. snd (snd (snd (readObject e n isRoot st))) =
            st\<lparr>readLog := readLog st @ l, listOfNotFound := listOfNotFound st @ xs\<rparr>
          \<and> (xs = [] \<or> xs = [n])"
proof (cases "isRoot \<and> \<not> falsy (readFileSync e n)")
  case True
  then have "snd (snd (snd (readObject e n isRoot st))) =
      st\<lparr>readLog := readLog st @ [n], listOfNotFound := listOfNotFound st @ []\<rparr>"
    by (simp add: readObject_def tryRead_def)
  then show ?thesis by blast
next
  case False
  let ?R = "readsUntilSuccess e (candidates e n @ candidates e (toLowerCase n))"
  let ?F = "\<forall>p \<in> set (candidates e n @ candidates e (toLowerCase n)). readFileSync e p = None"
  from False have "readObject e n isRoot st =
      librarySearch e n (if isRoot then readFileSync e n else None)
        (if isRoot then st\<lparr>readLog := readLog st @ [n]\<rparr> else st)"
    by (auto simp add: readObject_def tryRead_def falsy_def)
  then have "snd (snd (snd (readObject e n isRoot st))) =
      st\<lparr>readLog := readLog st @ ((if isRoot then [n] else []) @ ?R),
         listOfNotFound := listOfNotFound st @ (if ?F then [n] else [])\<rparr>"
    by (cases isRoot) (simp_all add: librarySearch_state Let_def)
  moreover have "(if ?F then [n] else []) = [] \<or> (if ?F then [n] else []) = [n]" by simp
  ultimately show ?thesis by blast
qed

lemma parseObject_found:
  assumes "readObject e name isRoot (st\<lparr>trace := trace st @ [Walk name]\<rparr>)
             = (c, prefix, fileName, st1)"
    and "\<not> falsy c"
    and "parseObject (Suc depth) e name isRoot st = Some (r, st')"
  shows "\<exists>lines header out st2.
           scanLines (\<lambda>name s. parseObject depth e name False s) 0 lines header st1
             = Some (out, st2)
           \<and> r = Some (canonicalPath prefix fileName)
           \<and> st' = st2\<lparr>objectsPaths := objectsPaths st2 @ [canonicalPath prefix fileName],
                         objectsContents := objectsContents st2 @ [out]\<rparr>"
  using assms by (cases c) (auto simp add: Let_def falsy_def split: option.splits)

text \<open>
  The same for a whole call: the property is asked of the accumulators once the call is
  entered in \<open>trace\<close> and the file has been searched.
\<close>

lemma parseObject_invariant:
  assumes enter: "\<And>s x. P s \<Longrightarrow> \<not> present (pathMap s) x
                \<Longrightarrow> P (snd (snd (snd (readObject e x False
                                           (s\<lparr>trace := trace s @ [Walk x]\<rparr>)))))"
    and decl: "\<And>s k. P s \<Longrightarrow> \<not> present (pathMap s) k \<Longrightarrow> k \<noteq> []
                \<Longrightarrow> P (s\<lparr>pathMap := assign (pathMap s) k k\<rparr>)"
    and res: "\<And>d s0 s k v. P s0 \<Longrightarrow> \<not> present (pathMap s0) k
                \<Longrightarrow> parseObject d e k False s0 = Some (Some v, s) \<Longrightarrow> P s \<Longrightarrow> v \<noteq> []
                \<Longrightarrow> P (s\<lparr>pathMap := assign (pathMap s) k v,
                         trace := trace s @ [Resolved k v]\<rparr>)"
    and docs: "\<And>s p c. P s \<Longrightarrow> P (s\<lparr>objectsPaths := objectsPaths s @ [p],
                                      objectsContents := objectsContents s @ [c]\<rparr>)"
  shows "parseObject depth e name isRoot st = Some (r, st')
         \<Longrightarrow> P (snd (snd (snd (readObject e name isRoot (st\<lparr>trace := trace st @ [Walk name]\<rparr>)))))
         \<Longrightarrow> P st'"
proof (induction depth arbitrary: name isRoot st r st')
  case 0
  then show ?case by simp
next
  case (Suc depth)
  obtain c prefix fileName st1
    where ro: "readObject e name isRoot (st\<lparr>trace := trace st @ [Walk name]\<rparr>)
                 = (c, prefix, fileName, st1)"
    by (cases "readObject e name isRoot (st\<lparr>trace := trace st @ [Walk name]\<rparr>)") auto
  with Suc.prems(2) have p1: "P st1" by simp
  show ?case
  proof (cases "falsy c")
    case True
    with Suc.prems(1) ro p1 show ?thesis by simp
  next
    case False
    from parseObject_found[OF ro False Suc.prems(1)] obtain lines header out st2
      where scan: "scanLines (\<lambda>name s. parseObject depth e name False s) 0 lines header st1
                     = Some (out, st2)"
        and st': "st' = st2\<lparr>objectsPaths := objectsPaths st2 @ [canonicalPath prefix fileName],
                                objectsContents := objectsContents st2 @ [out]\<rparr>"
      by blast
    have "P st2"
    proof (rule scanLines_invariant[where P = P, OF _ _ _ scan p1])
      fix x s r' s'
      assume call: "parseObject depth e x False s = Some (r', s')"
        and absent: "\<not> present (pathMap s) x" and "P s"
      from enter[OF this(3) absent] show "P s'" by (rule Suc.IH[OF call])
    next
      show "\<And>s k. P s \<Longrightarrow> \<not> present (pathMap s) k \<Longrightarrow> k \<noteq> []
              \<Longrightarrow> P (s\<lparr>pathMap := assign (pathMap s) k k\<rparr>)" by (rule decl)
    next
      show "\<And>s0 s k v. P s0 \<Longrightarrow> \<not> present (pathMap s0) k
              \<Longrightarrow> parseObject depth e k False s0 = Some (Some v, s) \<Longrightarrow> P s \<Longrightarrow> v \<noteq> []
              \<Longrightarrow> P (s\<lparr>pathMap := assign (pathMap s) k v,
                       trace := trace s @ [Resolved k v]\<rparr>)" by (rule res)
    qed
    with st' docs show ?thesis by simp
  qed
qed

text \<open>
  For a property that does not look at \<open>trace\<close>, at what was read or at what was not
  found, it is enough that the stores into \<open>pathMap\<close> and the appended document keep it.
\<close>

lemma parseObject_invariant_plain:
  assumes upd: "\<And>s0 s k v. P s0 \<Longrightarrow> \<not> present (pathMap s0) k \<Longrightarrow> P s \<Longrightarrow> v \<noteq> []
                \<Longrightarrow> P (s\<lparr>pathMap := assign (pathMap s) k v\<rparr>)"
    and frame: "\<And>s t l xs. P s \<Longrightarrow> P (s\<lparr>trace := trace s @ t, readLog := readLog s @ l,
                                        listOfNotFound := listOfNotFound s @ xs\<rparr>)"
    and docs: "\<And>s p c. P s \<Longrightarrow> P (s\<lparr>objectsPaths := objectsPaths s @ [p],
                                      objectsContents := objectsContents s @ [c]\<rparr>)"
    and call: "parseObject depth e name isRoot st = Some (r, st')"
    and start: "P st"
  shows "P st'"
proof -
  have entered: "P (snd (snd (snd (readObject e x isRoot' (s\<lparr>trace := trace s @ [Walk x]\<rparr>)))))"
    if "P s" for s x isRoot'
  proof -
    from readObject_frame[of e x isRoot' "s\<lparr>trace := trace s @ [Walk x]\<rparr>"] obtain l xs
      where "snd (snd (snd (readObject e x isRoot' (s\<lparr>trace := trace s @ [Walk x]\<rparr>)))) =
               s\<lparr>trace := trace s @ [Walk x], readLog := readLog s @ l,
                  listOfNotFound := listOfNotFound s @ xs\<rparr>"
      by auto
    with frame[OF that, where t = "[Walk x]" and l = l and xs = xs] show ?thesis by simp
  qed
  show ?thesis
  proof (rule parseObject_invariant[where P = P, OF _ _ _ docs call])
    show "\<And>s x. P s \<Longrightarrow> \<not> present (pathMap s) x
            \<Longrightarrow> P (snd (snd (snd (readObject e x False (s\<lparr>trace := trace s @ [Walk x]\<rparr>)))))"
      by (rule entered)
    show "\<And>s k. P s \<Longrightarrow> \<not> present (pathMap s) k \<Longrightarrow> k \<noteq> []
            \<Longrightarrow> P (s\<lparr>pathMap := assign (pathMap s) k k\<rparr>)"
      by (rule upd)
    show "P (s\<lparr>pathMap := assign (pathMap s) k v, trace := trace s @ [Resolved k v]\<rparr>)"
      if "P s0" and "\<not> present (pathMap s0) k" and "P s" and "v \<noteq> []" for d s0 s k v
    proof -
      from upd[OF that] have "P (s\<lparr>pathMap := assign (pathMap s) k v\<rparr>)" .
      from frame[OF this, where t = "[Resolved k v]" and l = "[]" and xs = "[]"]
      show ?thesis by simp
    qed
    show "P (snd (snd (snd (readObject e name isRoot (st\<lparr>trace := trace st @ [Walk name]\<rparr>)))))"
      by (rule entered[OF start])
  qed
qed

lemma parseObject_lengths:
  assumes "parseObject depth e name isRoot st = Some (r, st')"
    and "length (objectsPaths st) = length (objectsContents st)"
  shows "length (objectsPaths st') = length (objectsContents st')"
  by (rule parseObject_invariant_plain[
        where P = "\<lambda>s. length (objectsPaths s) = length (objectsContents s)",
        OF _ _ _ assms]) simp_all


lemma parseObject_appends_last:
  assumes "parseObject depth e name isRoot st = Some (Some p, st')"
  shows "\<exists>st2 out. st' = st2\<lparr>objectsPaths := objectsPaths st2 @ [p],
                               objectsContents := objectsContents st2 @ [out]\<rparr>"
proof (cases depth)
  case 0
  with assms show ?thesis by simp
next
  case (Suc d)
  obtain c prefix fileName st1
    where ro: "readObject e name isRoot (st\<lparr>trace := trace st @ [Walk name]\<rparr>)
                 = (c, prefix, fileName, st1)"
    by (cases "readObject e name isRoot (st\<lparr>trace := trace st @ [Walk name]\<rparr>)") auto
  show ?thesis
  proof (cases "falsy c")
    case True
    with assms Suc ro show ?thesis by simp
  next
    case False
    from parseObject_found[OF ro False assms[unfolded Suc]] show ?thesis by auto
  qed
qed

lemma assemble_reversed:
  assumes "length (objectsPaths st) = length (objectsContents st)"
  shows "assemble m st = m @ [LF] @ concat (rev (objectsContents st)) @ [LF]"
proof -
  have "map (contentAt (objectsContents st)) [0 ..< length (objectsContents st)]
          = map ((!) (objectsContents st)) [0 ..< length (objectsContents st)]"
    by (rule map_cong) (simp_all add: contentAt_def)
  then have "map (contentAt (objectsContents st)) [0 ..< length (objectsContents st)]
          = objectsContents st" by (simp add: map_nth)
  then show ?thesis by (simp add: assemble_def assms rev_map[symmetric] del: upt_Suc)
qed

lemma pack_succeeds:
  assumes "packLDrawModel depth e fileName = Some r" and "outcome r = Inr artifact"
  shows "\<exists>materials root st.
           existsSync e (materialsFilePath e)
           \<and> readFileSync e (materialsFilePath e) = Some materials
           \<and> parseObject depth e fileName True (rootWalk e) = Some (root, st)
           \<and> stillNotFound st = []
           \<and> r = \<lparr>outcome = Inr (assemble materials st), notFoundLogged = [], reads = readLog st\<rparr>"
  using assms
  by (auto simp add: packLDrawModel_def tryRead_def rootWalk_def emptyWalk_def Let_def
      split: if_splits option.splits)

section \<open>The packed content\<close>

text \<open>
  \<^bold>\<open>C1\<close>, as the claim states it, fails. The pack of \<open>/tmp/one.ldr\<close> succeeds, and its
  result is not the materials content followed by the documents in reverse order and a
  line feed: \<open>packLDrawModel\<close> puts a line feed between the materials content and the
  first document. The pack of \<open>void.ldr\<close>, which is found in the library with an empty
  content, succeeds too, and its result holds no document at all, so no root document.
\<close>

theorem packed_artifact_counterexample:
  "map_option outcome (packLDrawModel (Suc (Suc 0)) (library exampleFiles) ''/tmp/one.ldr'')
     = Some (Inr (''0 !COLOUR Black CODE 0'' @ [LF] @ [LF]
                  @ ''1 16 0 0 0 1 0 0 0 1 0 0 0 1 brick.dat'' @ [LF]
                  @ ''0 FILE parts/brick.dat'' @ [LF] @ ''0 Brick 2 x 4'' @ [LF] @ [LF]))
   \<and> readFileSync (library exampleFiles) (materialsFilePath (library exampleFiles))
       = Some (''0 !COLOUR Black CODE 0'' @ [LF])
   \<and> map_option (\<lambda>(r, st). objectsContents st)
         (parseObject (Suc (Suc 0)) (library exampleFiles) ''/tmp/one.ldr'' True
            (rootWalk (library exampleFiles)))
       = Some [''0 FILE parts/brick.dat'' @ [LF] @ ''0 Brick 2 x 4'' @ [LF],
               ''1 16 0 0 0 1 0 0 0 1 0 0 0 1 brick.dat'' @ [LF]]
   \<and> ''0 !COLOUR Black CODE 0'' @ [LF]
         @ concat (rev [''0 FILE parts/brick.dat'' @ [LF] @ ''0 Brick 2 x 4'' @ [LF],
                        ''1 16 0 0 0 1 0 0 0 1 0 0 0 1 brick.dat'' @ [LF]])
         @ [LF]
       \<noteq> ''0 !COLOUR Black CODE 0'' @ [LF] @ [LF]
           @ ''1 16 0 0 0 1 0 0 0 1 0 0 0 1 brick.dat'' @ [LF]
           @ ''0 FILE parts/brick.dat'' @ [LF] @ ''0 Brick 2 x 4'' @ [LF] @ [LF]
   \<and> map_option outcome (packLDrawModel (Suc 0) (library exampleFiles) ''void.ldr'')
       = Some (Inr (''0 !COLOUR Black CODE 0'' @ [LF] @ [LF] @ [LF]))
   \<and> map_option (\<lambda>(r, st). (r, objectsContents st))
         (parseObject (Suc 0) (library exampleFiles) ''void.ldr'' True
            (rootWalk (library exampleFiles)))
       = Some (None, [])"
  by code_simp

text \<open>
  \<^bold>\<open>C1\<close>, amended. For every successful pack, the packed content is the materials
  content, a line feed, the rewritten contents of all discovered documents in the reverse
  of the order in which the walk appended them, and a line feed. Whenever the walk of the
  root returned a canonical path, the root's document is the one appended last, under that
  path, and so it comes first after the materials content and its line feed.
\<close>

theorem packed_artifact:
  assumes "packLDrawModel depth e fileName = Some r" and "outcome r = Inr artifact"
  shows "\<exists>materials root st.
           readFileSync e (materialsFilePath e) = Some materials
           \<and> parseObject depth e fileName True (rootWalk e) = Some (root, st)
           \<and> artifact = materials @ [LF] @ concat (rev (objectsContents st)) @ [LF]
           \<and> (case root of
                None \<Rightarrow> True
              | Some p \<Rightarrow>
                  \<exists>docs doc. objectsContents st = docs @ [doc]
                    \<and> objectsPaths st \<noteq> [] \<and> last (objectsPaths st) = p
                    \<and> artifact = materials @ [LF] @ doc @ concat (rev docs) @ [LF])"
proof -
  from pack_succeeds[OF assms] obtain materials root st
    where mat: "readFileSync e (materialsFilePath e) = Some materials"
      and walk: "parseObject depth e fileName True (rootWalk e) = Some (root, st)"
      and r: "r = \<lparr>outcome = Inr (assemble materials st), notFoundLogged = [], reads = readLog st\<rparr>"
    by blast
  have "length (objectsPaths st) = length (objectsContents st)"
    by (rule parseObject_lengths[OF walk]) (simp add: rootWalk_def emptyWalk_def)
  with r assms(2) have art: "artifact = materials @ [LF] @ concat (rev (objectsContents st)) @ [LF]"
    by (simp add: assemble_reversed)
  have "case root of
          None \<Rightarrow> True
        | Some p \<Rightarrow>
            \<exists>docs doc. objectsContents st = docs @ [doc]
              \<and> objectsPaths st \<noteq> [] \<and> last (objectsPaths st) = p
              \<and> artifact = materials @ [LF] @ doc @ concat (rev docs) @ [LF]"
  proof (cases root)
    case None
    then show ?thesis by simp
  next
    case (Some p)
    with parseObject_appends_last[of depth e fileName True "rootWalk e" p st] walk
    obtain st2 out where "st = st2\<lparr>objectsPaths := objectsPaths st2 @ [p],
                                    objectsContents := objectsContents st2 @ [out]\<rparr>"
      by auto
    with art Some show ?thesis by simp
  qed
  with mat walk art show ?thesis by blast
qed

theorem packed_artifact_witness:
  "\<exists>materials root st.
     readFileSync (library exampleFiles) (materialsFilePath (library exampleFiles)) = Some materials
     \<and> parseObject (Suc (Suc 0)) (library exampleFiles) ''/tmp/one.ldr'' True
           (rootWalk (library exampleFiles)) = Some (root, st)
     \<and> ''0 !COLOUR Black CODE 0'' @ [LF] @ [LF]
           @ ''1 16 0 0 0 1 0 0 0 1 0 0 0 1 brick.dat'' @ [LF]
           @ ''0 FILE parts/brick.dat'' @ [LF] @ ''0 Brick 2 x 4'' @ [LF] @ [LF]
         = materials @ [LF] @ concat (rev (objectsContents st)) @ [LF]
     \<and> (case root of
          None \<Rightarrow> True
        | Some p \<Rightarrow>
            \<exists>docs doc. objectsContents st = docs @ [doc]
              \<and> objectsPaths st \<noteq> [] \<and> last (objectsPaths st) = p
              \<and> ''0 !COLOUR Black CODE 0'' @ [LF] @ [LF]
                    @ ''1 16 0 0 0 1 0 0 0 1 0 0 0 1 brick.dat'' @ [LF]
                    @ ''0 FILE parts/brick.dat'' @ [LF] @ ''0 Brick 2 x 4'' @ [LF] @ [LF]
                  = materials @ [LF] @ doc @ concat (rev docs) @ [LF])"
proof -
  have packed: "packLDrawModel (Suc (Suc 0)) (library exampleFiles) ''/tmp/one.ldr'' =
      Some \<lparr>outcome = Inr (''0 !COLOUR Black CODE 0'' @ [LF] @ [LF]
                  @ ''1 16 0 0 0 1 0 0 0 1 0 0 0 1 brick.dat'' @ [LF]
                  @ ''0 FILE parts/brick.dat'' @ [LF] @ ''0 Brick 2 x 4'' @ [LF] @ [LF]),
            notFoundLogged = [],
            reads = [''/home/ldraw/LDConfig.ldr'', ''/tmp/one.ldr'', ''/home/ldraw/brick.dat'',
                     ''/home/ldraw/parts/brick.dat'']\<rparr>"
    by code_simp
  show ?thesis
    by (rule packed_artifact[OF packed]) simp
qed

section \<open>Failures of a pack\<close>



lemma pack_after_walk:
  assumes "existsSync e (materialsFilePath e)"
    and "readFileSync e (materialsFilePath e) = Some materials"
    and "parseObject depth e fileName True (rootWalk e) = Some (root, st)"
  shows "packLDrawModel depth e fileName =
           Some (if stillNotFound st \<noteq> []
                 then \<lparr>outcome = Inl (Error ''Some files were not found during packing''),
                       notFoundLogged = stillNotFound st, reads = readLog st\<rparr>
                 else \<lparr>outcome = Inr (assemble materials st),
                       notFoundLogged = [], reads = readLog st\<rparr>)"
  using assms
  by (simp add: packLDrawModel_def tryRead_def rootWalk_def emptyWalk_def Let_def)





text \<open>
  \<^bold>\<open>C5\<close>, as the claim states it, fails. The pack of \<open>/tmp/twice.ldr\<close> misses \<open>X.dat\<close>
  and \<open>Y.dat\<close>, the pack of \<open>/tmp/once.ldr\<close> misses \<open>Z.dat\<close>, and both throw the same
  exception, an \<open>Error\<close> with a fixed message: what the caller receives does not tell
  which names are missing. The names only go to the console.
\<close>

theorem missing_references_failure_counterexample:
  "map_option outcome (packLDrawModel (Suc (Suc 0)) (library exampleFiles) ''/tmp/twice.ldr'')
     = Some (Inl (Error ''Some files were not found during packing''))
   \<and> map_option notFoundLogged
         (packLDrawModel (Suc (Suc 0)) (library exampleFiles) ''/tmp/twice.ldr'')
     = Some [''X.dat'', ''X.dat'', ''Y.dat'']
   \<and> map_option outcome (packLDrawModel (Suc (Suc 0)) (library exampleFiles) ''/tmp/once.ldr'')
     = Some (Inl (Error ''Some files were not found during packing''))
   \<and> map_option notFoundLogged
         (packLDrawModel (Suc (Suc 0)) (library exampleFiles) ''/tmp/once.ldr'')
     = Some [''Z.dat'']"
  by code_simp

text \<open>
  \<^bold>\<open>C5\<close>, amended. When a pack fails after the materials file was read, so because
  references are missing, the exception the caller receives is an \<open>Error\<close> whose message
  is the fixed text \<open>Some files were not found during packing\<close>, with no name in it. The
  complete list of the missing names, not just the first (every entry of \<open>listOfNotFound\<close>
  that fails the test of line 148, in order), is written to the console, and it is not
  empty.
\<close>

theorem missing_references_failure:
  assumes "packLDrawModel depth e fileName = Some r"
    and "existsSync e (materialsFilePath e)"
    and "readFileSync e (materialsFilePath e) = Some materials"
    and "isl (outcome r)"
  shows "outcome r = Inl (Error ''Some files were not found during packing'')
         \<and> (\<exists>root st. parseObject depth e fileName True (rootWalk e) = Some (root, st)
               \<and> notFoundLogged r = filter (\<lambda>n. \<not> present (pathMap st) n) (listOfNotFound st)
               \<and> notFoundLogged r \<noteq> [])"
proof -
  from assms(1,2,3) obtain root st
    where walk: "parseObject depth e fileName True (rootWalk e) = Some (root, st)"
    by (auto simp add: packLDrawModel_def tryRead_def rootWalk_def emptyWalk_def
        split: option.splits)
  from pack_after_walk[OF assms(2,3) walk] assms(1,4) walk show ?thesis
    by (cases "stillNotFound st \<noteq> []") (auto simp add: stillNotFound_def)
qed

theorem missing_references_failure_witness:
  "outcome \<lparr>outcome = Inl (Error ''Some files were not found during packing''),
            notFoundLogged = [''Z.dat''],
            reads = ''/home/ldraw/LDConfig.ldr'' # ''/tmp/once.ldr''
                      # candidates (library exampleFiles) ''Z.dat''
                      @ candidates (library exampleFiles) ''z.dat''\<rparr>
     = Inl (Error ''Some files were not found during packing'')
   \<and> (\<exists>root st. parseObject (Suc (Suc 0)) (library exampleFiles) ''/tmp/once.ldr'' True
                    (rootWalk (library exampleFiles)) = Some (root, st)
         \<and> [''Z.dat''] = filter (\<lambda>n. \<not> present (pathMap st) n) (listOfNotFound st))"
proof -
  have packed: "packLDrawModel (Suc (Suc 0)) (library exampleFiles) ''/tmp/once.ldr'' =
      Some \<lparr>outcome = Inl (Error ''Some files were not found during packing''),
            notFoundLogged = [''Z.dat''],
            reads = ''/home/ldraw/LDConfig.ldr'' # ''/tmp/once.ldr''
                      # candidates (library exampleFiles) ''Z.dat''
                      @ candidates (library exampleFiles) ''z.dat''\<rparr>"
    by code_simp
  have ex: "existsSync (library exampleFiles) (materialsFilePath (library exampleFiles))"
    by code_simp
  have mat: "readFileSync (library exampleFiles) (materialsFilePath (library exampleFiles))
               = Some (''0 !COLOUR Black CODE 0'' @ [LF])"
    by code_simp
  from missing_references_failure[OF packed ex mat] show ?thesis by simp
qed

section \<open>References met more than once\<close>

lemma scanLine_unresolved:
  assumes "refersTo raw name" and "\<not> present (pathMap st) name"
    and "\<forall>p \<in> set (candidates e name @ candidates e (toLowerCase name)). readFileSync e p = None"
  shows "scanLine (\<lambda>n s. parseObject (Suc depth) e n False s) i raw processed st =
           Some (processed @ stripIndent raw @ [LF],
                 st\<lparr>trace := trace st @ [Walk name],
                    readLog := readLog st @ candidates e name @ candidates e (toLowerCase name),
                    listOfNotFound := listOfNotFound st @ [name]\<rparr>)"
proof -
  from assms(1) have "\<not> startsWith (stripIndent raw) ''0 FILE ''"
    by (simp add: refersTo_def startsWith_placement_not_file)
  moreover have "parseObject (Suc depth) e name False st =
      Some (None, st\<lparr>trace := trace st @ [Walk name],
                     readLog := readLog st @ candidates e name @ candidates e (toLowerCase name),
                     listOfNotFound := listOfNotFound st @ [name]\<rparr>)"
    using parseObject_unresolved[OF assms(3), of False depth st] by (simp del: parseObject.simps)
  ultimately show ?thesis
    using assms(1,2) by (simp add: scanLine_def refersTo_def Let_def del: parseObject.simps)
qed

text \<open>
  Over a whole walk, a name whose eight candidates are unreadable is in \<open>listOfNotFound\<close>
  once for every search that was begun for it.
\<close>

lemma notFound_once_per_search:
  assumes unreadable: "\<forall>p \<in> set (candidates e name @ candidates e (toLowerCase name)).
                         readFileSync e p = None"
    and call: "parseObject depth e fileName True st = Some (r, st')"
    and root: "fileName \<noteq> name"
    and start: "count_list (listOfNotFound st) name = count_list (trace st) (Walk name)"
  shows "count_list (listOfNotFound st') name = count_list (trace st') (Walk name)"
proof (rule parseObject_invariant[
    where P = "\<lambda>s. count_list (listOfNotFound s) name = count_list (trace s) (Walk name)",
    OF _ _ _ _ call])
  fix s :: walk and x
  assume P: "count_list (listOfNotFound s) name = count_list (trace s) (Walk name)"
  let ?s1 = "snd (snd (snd (readObject e x False (s\<lparr>trace := trace s @ [Walk x]\<rparr>))))"
  show "count_list (listOfNotFound ?s1) name = count_list (trace ?s1) (Walk name)"
  proof (cases "x = name")
    case True
    with P show ?thesis
      by (simp add: readObject_def falsy_def librarySearch_fail[OF unreadable])
  next
    case False
    from readObject_frame[of e x False "s\<lparr>trace := trace s @ [Walk x]\<rparr>"] obtain l xs
      where "?s1 = s\<lparr>trace := trace s @ [Walk x], readLog := readLog s @ l,
                       listOfNotFound := listOfNotFound s @ xs\<rparr>"
        and "xs = [] \<or> xs = [x]"
      by auto
    with P False show ?thesis by auto
  qed
next
  let ?s1 = "snd (snd (snd (readObject e fileName True (st\<lparr>trace := trace st @ [Walk fileName]\<rparr>))))"
  from readObject_frame[of e fileName True "st\<lparr>trace := trace st @ [Walk fileName]\<rparr>"]
  obtain l xs
    where "?s1 = st\<lparr>trace := trace st @ [Walk fileName], readLog := readLog st @ l,
                      listOfNotFound := listOfNotFound st @ xs\<rparr>"
      and "xs = [] \<or> xs = [fileName]"
    by auto
  with start root show "count_list (listOfNotFound ?s1) name = count_list (trace ?s1) (Walk name)"
    by auto
qed simp_all

text \<open>
  \<^bold>\<open>C10\<close>, as the claim states it, fails. In \<open>/tmp/declared.ldr\<close> a placement line refers
  to \<open>X.dat\<close>, which is found nowhere; the next line declares \<open>0 FILE X.dat\<close>; a third line
  refers to \<open>X.dat\<close> again. The third line makes no search and appends nothing: the trace
  holds one search for \<open>X.dat\<close>, eight candidates were read, and \<open>listOfNotFound\<close> holds
  the name once.
\<close>

theorem unresolved_reference_repeats_counterexample:
  "readFileSync (library exampleFiles) ''/tmp/declared.ldr''
     = Some (placement ''X.dat'' @ [LF] @ ''0 FILE X.dat'' @ [LF] @ placement ''X.dat'')
   \<and> map_option (\<lambda>(r, st). (r, trace st, pathMap st, listOfNotFound st, readLog st))
       (parseObject (Suc (Suc 0)) (library exampleFiles) ''/tmp/declared.ldr'' True
          (rootWalk (library exampleFiles)))
     = Some (Some ''/tmp/declared.ldr'',
             [Walk ''/tmp/declared.ldr'', Walk ''X.dat''],
             [(''X.dat'', ''X.dat'')],
             [''X.dat''],
             [''/home/ldraw/LDConfig.ldr'', ''/tmp/declared.ldr'',
              ''/home/ldraw/X.dat'', ''/home/ldraw/parts/X.dat'',
              ''/home/ldraw/p/X.dat'', ''/home/ldraw/models/X.dat'',
              ''/home/ldraw/x.dat'', ''/home/ldraw/parts/x.dat'',
              ''/home/ldraw/p/x.dat'', ''/home/ldraw/models/x.dat''])"
  by code_simp

text \<open>
  \<^bold>\<open>C10\<close>, amended. A failed resolution is never stored in \<open>pathMap\<close>. So every placement
  line, in any file of the pack and at any depth, that refers to a name whose eight
  candidates are unreadable and is met while the name fails the test \<open>pathMap[name]\<close> (no
  \<open>0 FILE\<close> line has declared it meanwhile) makes the whole search, eight reads, appends
  the name as written to \<open>listOfNotFound\<close> and leaves \<open>pathMap\<close> as it was, so that the
  name still fails the test afterwards. Over a whole pack whose root is another file, the
  name is in \<open>listOfNotFound\<close> as many times as a search was begun for it, which can be
  more than once.
\<close>

theorem unresolved_reference_repeats:
  assumes "\<forall>p \<in> set (candidates e name @ candidates e (toLowerCase name)). readFileSync e p = None"
  shows "(\<forall>raw st i processed depth.
            refersTo raw name \<longrightarrow> \<not> present (pathMap st) name \<longrightarrow>
            (\<exists>st'. scanLine (\<lambda>n s. parseObject (Suc depth) e n False s) i raw processed st
                      = Some (processed @ stripIndent raw @ [LF], st')
                  \<and> st' = st\<lparr>trace := trace st @ [Walk name],
                              readLog := readLog st @ candidates e name
                                           @ candidates e (toLowerCase name),
                              listOfNotFound := listOfNotFound st @ [name]\<rparr>
                  \<and> \<not> present (pathMap st') name))
         \<and> (\<forall>depth fileName r st.
               fileName \<noteq> name \<longrightarrow>
               parseObject depth e fileName True (rootWalk e) = Some (r, st) \<longrightarrow>
               count_list (listOfNotFound st) name = count_list (trace st) (Walk name))"
proof (intro conjI allI impI)
  fix raw and st :: walk and i processed depth
  assume "refersTo raw name" and "\<not> present (pathMap st) name"
  from scanLine_unresolved[OF this assms, of depth i processed] this(2)
  show "\<exists>st'. scanLine (\<lambda>n s. parseObject (Suc depth) e n False s) i raw processed st
                 = Some (processed @ stripIndent raw @ [LF], st')
             \<and> st' = st\<lparr>trace := trace st @ [Walk name],
                         readLog := readLog st @ candidates e name
                                      @ candidates e (toLowerCase name),
                         listOfNotFound := listOfNotFound st @ [name]\<rparr>
             \<and> \<not> present (pathMap st') name"
    by (simp del: parseObject.simps)
next
  fix depth fileName r st
  assume "fileName \<noteq> name"
    and "parseObject depth e fileName True (rootWalk e) = Some (r, st)"
  from notFound_once_per_search[OF assms this(2,1)]
  show "count_list (listOfNotFound st) name = count_list (trace st) (Walk name)"
    by (simp add: rootWalk_def emptyWalk_def)
qed

theorem unresolved_reference_repeats_witness:
  "(\<exists>st'. scanLine (\<lambda>n s. parseObject (Suc 0) (library exampleFiles) n False s) 2
             '' 1 4 0 0 0 1 0 0 0 1 0 0 0 1 X.dat'' ''0 head'' emptyWalk
           = Some (''0 head'' @ stripIndent '' 1 4 0 0 0 1 0 0 0 1 0 0 0 1 X.dat'' @ [LF], st')
         \<and> st' = emptyWalk\<lparr>trace := trace emptyWalk @ [Walk ''X.dat''],
                     readLog := readLog emptyWalk @ candidates (library exampleFiles) ''X.dat''
                                  @ candidates (library exampleFiles) (toLowerCase ''X.dat''),
                     listOfNotFound := listOfNotFound emptyWalk @ [''X.dat'']\<rparr>
         \<and> \<not> present (pathMap st') ''X.dat'')
   \<and> count_list [''X.dat'', ''X.dat'', ''Y.dat''] ''X.dat''
       = count_list [Walk ''/tmp/twice.ldr'', Walk ''X.dat'', Walk ''X.dat'', Walk ''Y.dat'']
           (Walk ''X.dat'')"
proof -
  let ?e = "library exampleFiles"
  have unreadable: "\<forall>p \<in> set (candidates ?e ''X.dat'' @ candidates ?e (toLowerCase ''X.dat'')).
                      readFileSync ?e p = None"
    by code_simp
  have line: "refersTo '' 1 4 0 0 0 1 0 0 0 1 0 0 0 1 X.dat'' ''X.dat''" by code_simp
  have absent: "\<not> present (pathMap emptyWalk) ''X.dat''" by code_simp
  have root: "''/tmp/twice.ldr'' \<noteq> ''X.dat''" by simp
  have walk: "parseObject (Suc (Suc 0)) ?e ''/tmp/twice.ldr'' True (rootWalk ?e)
              = Some (Some ''/tmp/twice.ldr'',
                  \<lparr>objectsPaths = [''/tmp/twice.ldr''],
                   objectsContents = [placement ''X.dat'' @ [LF] @ placement ''X.dat'' @ [LF]
                                        @ placement ''Y.dat'' @ [LF]],
                   pathMap = [],
                   listOfNotFound = [''X.dat'', ''X.dat'', ''Y.dat''],
                   readLog = ''/home/ldraw/LDConfig.ldr'' # ''/tmp/twice.ldr''
                      # candidates ?e ''X.dat'' @ candidates ?e ''x.dat''
                      @ candidates ?e ''X.dat'' @ candidates ?e ''x.dat''
                      @ candidates ?e ''Y.dat'' @ candidates ?e ''y.dat'',
                   trace = [Walk ''/tmp/twice.ldr'', Walk ''X.dat'', Walk ''X.dat'',
                            Walk ''Y.dat'']\<rparr>)"
    by code_simp
  note both = unresolved_reference_repeats[OF unreadable]
  from both[THEN conjunct1, rule_format, OF line absent, of 0 2 "''0 head''"]
  have first: "\<exists>st'. scanLine (\<lambda>n s. parseObject (Suc 0) ?e n False s) 2
             '' 1 4 0 0 0 1 0 0 0 1 0 0 0 1 X.dat'' ''0 head'' emptyWalk
           = Some (''0 head'' @ stripIndent '' 1 4 0 0 0 1 0 0 0 1 0 0 0 1 X.dat'' @ [LF], st')
         \<and> st' = emptyWalk\<lparr>trace := trace emptyWalk @ [Walk ''X.dat''],
                     readLog := readLog emptyWalk @ candidates ?e ''X.dat''
                                  @ candidates ?e (toLowerCase ''X.dat''),
                     listOfNotFound := listOfNotFound emptyWalk @ [''X.dat'']\<rparr>
         \<and> \<not> present (pathMap st') ''X.dat''"
    by (simp only:)
  from both[THEN conjunct2, rule_format, OF root walk]
  have "count_list (listOfNotFound
          \<lparr>objectsPaths = [''/tmp/twice.ldr''],
           objectsContents = [placement ''X.dat'' @ [LF] @ placement ''X.dat'' @ [LF]
                                @ placement ''Y.dat'' @ [LF]],
           pathMap = [],
           listOfNotFound = [''X.dat'', ''X.dat'', ''Y.dat''],
           readLog = ''/home/ldraw/LDConfig.ldr'' # ''/tmp/twice.ldr''
              # candidates ?e ''X.dat'' @ candidates ?e ''x.dat''
              @ candidates ?e ''X.dat'' @ candidates ?e ''x.dat''
              @ candidates ?e ''Y.dat'' @ candidates ?e ''y.dat'',
           trace = [Walk ''/tmp/twice.ldr'', Walk ''X.dat'', Walk ''X.dat'',
                    Walk ''Y.dat'']\<rparr>) ''X.dat''
        = count_list (trace
          \<lparr>objectsPaths = [''/tmp/twice.ldr''],
           objectsContents = [placement ''X.dat'' @ [LF] @ placement ''X.dat'' @ [LF]
                                @ placement ''Y.dat'' @ [LF]],
           pathMap = [],
           listOfNotFound = [''X.dat'', ''X.dat'', ''Y.dat''],
           readLog = ''/home/ldraw/LDConfig.ldr'' # ''/tmp/twice.ldr''
              # candidates ?e ''X.dat'' @ candidates ?e ''x.dat''
              @ candidates ?e ''X.dat'' @ candidates ?e ''x.dat''
              @ candidates ?e ''Y.dat'' @ candidates ?e ''y.dat'',
           trace = [Walk ''/tmp/twice.ldr'', Walk ''X.dat'', Walk ''X.dat'',
                    Walk ''Y.dat'']\<rparr>) (Walk ''X.dat'')"
    by (simp only:)
  then have "count_list [''X.dat'', ''X.dat'', ''Y.dat''] ''X.dat''
       = count_list [Walk ''/tmp/twice.ldr'', Walk ''X.dat'', Walk ''X.dat'', Walk ''Y.dat'']
           (Walk ''X.dat'')"
    by (simp only: walk.select_convs)
  with first show ?thesis by blast
qed












section \<open>The depth bound\<close>

lemma scanLine_walker_mono:
  assumes "\<And>n s x. w n s = Some x \<Longrightarrow> w' n s = Some x"
    and "scanLine w i raw processed st = Some y"
  shows "scanLine w' i raw processed st = Some y"
proof -
  define line where "line = stripIndent raw"
  define name where "name = referencedName (splitWhiteSpace (trim line))"
  show ?thesis
  proof (cases "\<not> startsWith line ''0 FILE '' \<and> startsWith line ''1 ''
                 \<and> 15 \<le> length (splitWhiteSpace (trim line))
                 \<and> name \<noteq> [] \<and> \<not> present (pathMap st) name")
    case True
    with assms(2) obtain x where call: "w name st = Some x"
      by (auto simp add: scanLine_def Let_def line_def name_def split: option.splits)
    from assms(1)[OF call] call assms(2) True show ?thesis
      by (simp add: scanLine_def Let_def line_def name_def)
  next
    case False
    with assms(2) show ?thesis
      by (auto simp add: scanLine_def Let_def line_def name_def split: if_splits)
  qed
qed

lemma scanLines_walker_mono:
  assumes "\<And>n s x. w n s = Some x \<Longrightarrow> w' n s = Some x"
  shows "scanLines w i ls processed st = Some y \<Longrightarrow> scanLines w' i ls processed st = Some y"
proof (induction ls arbitrary: i processed st)
  case Nil
  then show ?case by simp
next
  case (Cons raw rest)
  from Cons.prems obtain out1 st1
    where one: "scanLine w i raw processed st = Some (out1, st1)"
      and more: "scanLines w (Suc i) rest out1 st1 = Some y"
    by (auto split: option.splits)
  have "scanLine w' i raw processed st = Some (out1, st1)"
    by (rule scanLine_walker_mono[where w = w]) (erule assms, rule one)
  with Cons.IH[OF more] show ?case by simp
qed

text \<open>
  The depth bound only cuts walks short: a call that returns within a bound returns the
  same value and the same accumulators within the next bound, and so within any larger one.
\<close>

lemma parseObject_depth_mono:
  "parseObject depth e name isRoot st = Some x \<Longrightarrow> parseObject (Suc depth) e name isRoot st = Some x"
proof (induction depth arbitrary: name isRoot st x)
  case 0
  then show ?case by simp
next
  case (Suc depth)
  obtain c prefix fileName st1
    where ro: "readObject e name isRoot (st\<lparr>trace := trace st @ [Walk name]\<rparr>)
                 = (c, prefix, fileName, st1)"
    by (cases "readObject e name isRoot (st\<lparr>trace := trace st @ [Walk name]\<rparr>)") auto
  show ?case
  proof (cases "falsy c")
    case True
    with Suc.prems ro show ?thesis by simp
  next
    case False
    let ?lines = "splitOn LF (let content = (case c of None \<Rightarrow> [] | Some t \<Rightarrow> t)
                              in if hasCRLF content then replaceCRLF content else content)"
    let ?header = "if isRoot then [] else ''0 FILE '' @ canonicalPath prefix fileName @ [LF]"
    from Suc.prems ro False obtain y
      where scan: "scanLines (\<lambda>n s. parseObject depth e n False s) 0 ?lines ?header st1 = Some y"
      by (auto simp add: Let_def split: option.splits)
    have "scanLines (\<lambda>n s. parseObject (Suc depth) e n False s) 0 ?lines ?header st1 = Some y"
      by (rule scanLines_walker_mono[where w = "\<lambda>n s. parseObject depth e n False s"])
        (erule Suc.IH, rule scan)
    moreover from Suc.prems ro False scan
    have "x = (case y of (out, st2) \<Rightarrow>
                (Some (canonicalPath prefix fileName),
                 st2\<lparr>objectsPaths := objectsPaths st2 @ [canonicalPath prefix fileName],
                     objectsContents := objectsContents st2 @ [out]\<rparr>))"
      by (cases y) (simp add: Let_def)
    ultimately show ?thesis using ro False
      by (subst parseObject.simps(2)) (cases y, simp add: Let_def del: parseObject.simps)
  qed
qed

lemma parseObject_depth_le:
  assumes "parseObject depth e name isRoot st = Some x" and "depth \<le> depth'"
  shows "parseObject depth' e name isRoot st = Some x"
  using assms(2)
proof (induction depth')
  case 0
  with assms(1) show ?case by simp
next
  case (Suc d)
  show ?case
  proof (cases "depth = Suc d")
    case True
    with assms(1) show ?thesis by simp
  next
    case False
    with Suc.prems have "depth \<le> d" by simp
    from parseObject_depth_mono[OF Suc.IH[OF this]] show ?thesis .
  qed
qed

end
